theory Spec2Isabelle
  imports Complex_Main
begin

section \<open>Data model of the game (src/app/page.tsx)\<close>

text \<open>
  The embedding follows the React component \<^verbatim>\<open>Game\<close>. JavaScript numbers that
  hold pixel coordinates and speeds are modelled as \<^typ>\<open>real\<close>, counters and
  identifiers as \<^typ>\<open>nat\<close>, hit points, scores and millisecond values as
  \<^typ>\<open>int\<close>. The motion of a bullet, which goes through \<^verbatim>\<open>Math.sin\<close> and
  \<^verbatim>\<open>Math.cos\<close>, is modelled with the rounding of the IEEE doubles written out (see
  \<open>fl\<close> below).
\<close>

datatype PowerUpType = fireSpeed | multiDirectional | slowMotion

datatype GameState = notStarted | playing | gameOver

text \<open>
  \<^verbatim>\<open>interface Bullet { id; x; y; angle? }\<close>. The optional \<^verbatim>\<open>angle\<close> is an option.
  An instance is allocated only by \<^verbatim>\<open>createBullet\<close>, with the next value of
  \<^verbatim>\<open>bulletIdRef\<close>, and its \<^verbatim>\<open>id\<close> is never written again; the counter is reset
  only by \<^verbatim>\<open>startGame\<close>, which also empties the live array and the pool. Within a
  session an object is therefore identified by its \<^verbatim>\<open>id\<close>, and the arrays of object
  references become lists of records.
\<close>

record Bullet =
  bullet_id :: nat
  bullet_x :: real
  bullet_y :: real
  bullet_angle :: "real option"

record Block =
  block_id :: nat
  block_x :: real
  block_y :: real
  block_hp :: int
  block_isHit :: bool
  block_isBreakable :: bool

record PowerUp =
  powerUp_id :: nat
  powerUp_x :: real
  powerUp_y :: real
  powerUp_type :: PowerUpType

text \<open>The \<^verbatim>\<open>keys\<close> state: the eight movement keys.\<close>

record Keys =
  key_ArrowUp :: bool
  key_ArrowDown :: bool
  key_ArrowLeft :: bool
  key_ArrowRight :: bool
  key_w :: bool
  key_a :: bool
  key_s :: bool
  key_d :: bool

text \<open>
  The callbacks that the component registers with \<^verbatim>\<open>requestAnimationFrame\<close>:
  \<^verbatim>\<open>updateRender\<close> and the five loops of \<^verbatim>\<open>startAnimationLoops\<close>.
\<close>

datatype Loop = Render | AnimPlayer | AnimBullets | AnimObjects | Collisions | PlayerCollisions

text \<open>
  The state of the component. A React state and the ref that an effect copies it into
  after every render (\<^verbatim>\<open>gameState\<close>/\<^verbatim>\<open>gameStateRef\<close>, \<^verbatim>\<open>position\<close>/\<^verbatim>\<open>positionRef\<close>,
  \<^verbatim>\<open>blockFallSpeed\<close>/\<^verbatim>\<open>blockFallSpeedRef\<close>, \<^verbatim>\<open>activePowerUps\<close>/\<^verbatim>\<open>activePowerUpsRef\<close>)
  are one field. The score is two fields, because the copy from \<^verbatim>\<open>scoreRef\<close> into the
  state \<^verbatim>\<open>score\<close> is made by \<^verbatim>\<open>updateRender\<close> under a guard. The arrays
  \<^verbatim>\<open>bullets\<close>, \<^verbatim>\<open>blocks\<close> and \<^verbatim>\<open>powerUps\<close> of the render state are only drawn and are
  left out, as are the sounds. \<^verbatim>\<open>keys\<close> and \<^verbatim>\<open>isDragging\<close> are the values captured by
  the closure of \<^verbatim>\<open>startAnimationLoops\<close> that \<^verbatim>\<open>startGame\<close> calls. The container's
  \<^verbatim>\<open>clientWidth\<close> and \<^verbatim>\<open>clientHeight\<close> are read from the DOM; the player element is
  48 by 48 pixels and is mounted while the game is played.

  \<^verbatim>\<open>rafCallbacks\<close> is the browser's ordered map of animation frame callbacks (handle
  and callback, in the order of registration) and \<^verbatim>\<open>rafNextHandle\<close> the next handle it
  hands out. \<^verbatim>\<open>hitResetPending\<close> counts the pending 50ms timeouts that clear
  \<^verbatim>\<open>isHit\<close>.
\<close>

record game =
  gameState :: GameState
  gameTime :: nat
  blockSpawnRate :: int
  blockFallSpeed :: real
  blocksPerWave :: int
  activePowerUps :: "PowerUpType \<Rightarrow> bool"
  powerUpTimeLeft :: "PowerUpType \<Rightarrow> int"
  position_x :: real
  position_y :: real
  keys :: Keys
  isDragging :: bool
  bulletsRef :: "Bullet list"
  blocksRef :: "Block list"
  powerUpsRef :: "PowerUp list"
  bulletPoolRef :: "Bullet list"
  bulletIdRef :: nat
  blockIdRef :: nat
  powerUpIdRef :: nat
  scoreRef :: int
  score :: int
  finalScoreRef :: int
  needsRenderRef :: bool
  lastFireTimeRef :: int
  rafCallbacks :: "(nat \<times> Loop) list"
  rafNextHandle :: nat
  animationFrameIds :: "Loop \<Rightarrow> nat option"
  containerWidth :: real
  containerHeight :: real
  hitResetPending :: nat

definition MAX_BULLETS :: nat where
  "MAX_BULLETS = 100"

definition noKeys :: Keys where
  "noKeys = \<lparr>key_ArrowUp = False, key_ArrowDown = False, key_ArrowLeft = False,
     key_ArrowRight = False, key_w = False, key_a = False, key_s = False, key_d = False\<rparr>"

text \<open>
  The component right after it is mounted: the initial values of every \<^verbatim>\<open>useState\<close>
  and \<^verbatim>\<open>useRef\<close>, and \<^verbatim>\<open>updateRender\<close> registered by its effect (handles are
  positive).
\<close>

definition initialGame :: "real \<Rightarrow> real \<Rightarrow> game" where
  "initialGame cw ch =
     \<lparr>gameState = notStarted, gameTime = 0, blockSpawnRate = 2000, blockFallSpeed = 3,
      blocksPerWave = 1, activePowerUps = (\<lambda>_. False), powerUpTimeLeft = (\<lambda>_. 0),
      position_x = 0, position_y = 0, keys = noKeys, isDragging = False,
      bulletsRef = [], blocksRef = [], powerUpsRef = [], bulletPoolRef = [],
      bulletIdRef = 0, blockIdRef = 0, powerUpIdRef = 0,
      scoreRef = 0, score = 0, finalScoreRef = 0, needsRenderRef = False,
      lastFireTimeRef = 0, rafCallbacks = [(1, Render)], rafNextHandle = 2,
      animationFrameIds = (\<lambda>_. None), containerWidth = cw, containerHeight = ch,
      hitResetPending = 0\<rparr>"

section \<open>The bullet pool\<close>

text \<open>\<^verbatim>\<open>createBullet(x, y, angle)\<close>: pop a pooled bullet and overwrite it, or allocate.\<close>

definition createBullet :: "real \<Rightarrow> real \<Rightarrow> real \<Rightarrow> game \<Rightarrow> Bullet \<times> game" where
  "createBullet x y ang g =
     (if length (bulletPoolRef g) > 0
      then (last (bulletPoolRef g)\<lparr>bullet_x := x, bullet_y := y, bullet_angle := Some ang\<rparr>,
            g\<lparr>bulletPoolRef := butlast (bulletPoolRef g)\<rparr>)
      else (\<lparr>bullet_id = bulletIdRef g, bullet_x = x, bullet_y = y, bullet_angle = Some ang\<rparr>,
            g\<lparr>bulletIdRef := bulletIdRef g + 1\<rparr>))"

text \<open>
  The release of bullets to the pool. The source has no function for it: the same
  statements stand in \<^verbatim>\<open>animateBullets\<close> (lines 928-931) and in \<^verbatim>\<open>checkCollisions\<close>
  (lines 1048-1051): \<^verbatim>\<open>availableSpace = MAX_BULLETS - pool.length\<close>, and
  \<^verbatim>\<open>pool.push(...recycled.slice(0, availableSpace))\<close> when it is positive.
\<close>

definition recycleBullets :: "Bullet list \<Rightarrow> game \<Rightarrow> game" where
  "recycleBullets recycled g =
     (let availableSpace = int MAX_BULLETS - int (length (bulletPoolRef g))
      in if availableSpace > 0
         then g\<lparr>bulletPoolRef := bulletPoolRef g @ take (nat availableSpace) recycled\<rparr>
         else g)"

section \<open>Animation frames\<close>

text \<open>
  \<^verbatim>\<open>requestAnimationFrame\<close> appends the callback to the browser's map and returns its
  handle; \<^verbatim>\<open>cancelAnimationFrame\<close> removes the entry with that handle.
\<close>

definition requestAnimationFrame :: "Loop \<Rightarrow> game \<Rightarrow> nat \<times> game" where
  "requestAnimationFrame l g =
     (rafNextHandle g,
      g\<lparr>rafCallbacks := rafCallbacks g @ [(rafNextHandle g, l)],
        rafNextHandle := rafNextHandle g + 1\<rparr>)"

definition cancelAnimationFrame :: "nat \<Rightarrow> game \<Rightarrow> game" where
  "cancelAnimationFrame h g = g\<lparr>rafCallbacks := filter (\<lambda>e. fst e \<noteq> h) (rafCallbacks g)\<rparr>"

text \<open>\<^verbatim>\<open>animationFrameIds.current.l = requestAnimationFrame(l)\<close>, the last statement of a loop.\<close>

definition scheduleLoop :: "Loop \<Rightarrow> game \<Rightarrow> game" where
  "scheduleLoop l g =
     (case requestAnimationFrame l g of
        (h, g') \<Rightarrow> g'\<lparr>animationFrameIds := (animationFrameIds g')(l := Some h)\<rparr>)"

definition gameLoops :: "Loop list" where
  "gameLoops = [AnimPlayer, AnimBullets, AnimObjects, Collisions, PlayerCollisions]"

text \<open>
  \<^verbatim>\<open>Object.values(animationFrameIds.current).forEach((id) => { if (id) cancelAnimationFrame(id) })\<close>
  followed by \<^verbatim>\<open>animationFrameIds.current = {}\<close> (in \<^verbatim>\<open>triggerGameOver\<close>, in
  \<^verbatim>\<open>startGame\<close> and in the effect on \<^verbatim>\<open>gameState\<close>). The handle 0 is falsy.
\<close>

definition cancelAllFrames :: "game \<Rightarrow> game" where
  "cancelAllFrames g =
     (fold (\<lambda>l g'. case animationFrameIds g l of
                       None \<Rightarrow> g'
                     | Some h \<Rightarrow> if h \<noteq> 0 then cancelAnimationFrame h g' else g')
           gameLoops g)
     \<lparr>animationFrameIds := (\<lambda>_. None)\<rparr>"

section \<open>Power-up effects\<close>

definition activatePowerUp :: "PowerUpType \<Rightarrow> game \<Rightarrow> game" where
  "activatePowerUp t g =
     g\<lparr>activePowerUps := (activePowerUps g)(t := True),
       powerUpTimeLeft := (powerUpTimeLeft g)(t := (if t = slowMotion then 5 else 10))\<rparr>"

text \<open>The callback of \<^verbatim>\<open>powerUpTimerInterval\<close>; the interval exists while the game is played.\<close>

definition powerUpTimerTick :: "game \<Rightarrow> game" where
  "powerUpTimerTick g =
     (if gameState g \<noteq> playing then g
      else let newTimeLeft = (\<lambda>t. max 0 (powerUpTimeLeft g t - 1))
           in g\<lparr>activePowerUps := (\<lambda>t. newTimeLeft t > 0), powerUpTimeLeft := newTimeLeft\<rparr>)"

section \<open>Spawning and the difficulty timer\<close>

text \<open>
  \<^verbatim>\<open>spawnPowerUp\<close>. The two results of \<^verbatim>\<open>Math.random()\<close> are the arguments \<open>rx\<close> and
  \<open>rt\<close>; \<^verbatim>\<open>powerUpTypes[Math.floor(rt * 3)]\<close> is written out for the three indices that
  a value in [0, 1) gives.
\<close>

definition spawnPowerUp :: "real \<Rightarrow> real \<Rightarrow> game \<Rightarrow> game" where
  "spawnPowerUp rx rt g =
     (if gameState g = playing
      then let powerUpX = rx * (containerWidth g - 30);
               i = \<lfloor>rt * 3\<rfloor>;
               randomType = (if i = 0 then fireSpeed else if i = 1 then multiDirectional else slowMotion);
               newPowerUp = \<lparr>powerUp_id = powerUpIdRef g, powerUp_x = powerUpX, powerUp_y = - 50,
                               powerUp_type = randomType\<rparr>
           in g\<lparr>powerUpsRef := powerUpsRef g @ [newPowerUp],
                powerUpIdRef := powerUpIdRef g + 1,
                needsRenderRef := True\<rparr>
      else g)"

text \<open>
  The callback of \<^verbatim>\<open>gameTimerInterval\<close>. The tests read \<^verbatim>\<open>blocksPerWave\<close> and
  \<^verbatim>\<open>blockSpawnRate\<close> of the closure, which the effect renews whenever they change; the
  updates are applied to the previous values.
\<close>

definition gameTimerTick :: "real \<Rightarrow> real \<Rightarrow> game \<Rightarrow> game" where
  "gameTimerTick rx rt g =
     (if gameState g \<noteq> playing then g
      else let newTime = gameTime g + 1;
               g1 = (if newTime mod 10 = 0 \<and> blocksPerWave g < 5
                     then g\<lparr>blocksPerWave := min (blocksPerWave g + 1) 5\<rparr> else g);
               g2 = (if newTime mod 15 = 0
                     then g1\<lparr>blockFallSpeed := blockFallSpeed g1 + 0.5\<rparr> else g1);
               g3 = (if newTime mod 20 = 0 \<and> blockSpawnRate g > 500
                     then g2\<lparr>blockSpawnRate := max (blockSpawnRate g2 - 300) 500\<rparr> else g2);
               g4 = (if newTime mod 20 = 0 then spawnPowerUp rx rt g3 else g3)
           in g4\<lparr>gameTime := newTime\<rparr>)"

text \<open>
  \<^verbatim>\<open>spawnBlock\<close>: one iteration of the loop for the index \<open>i\<close>, with the three results of
  \<^verbatim>\<open>Math.random()\<close> as arguments, and the loop over \<^verbatim>\<open>i < blocksPerWave\<close>, which draws
  from the source \<open>rnd\<close>.
\<close>

definition spawnOneBlock :: "nat \<Rightarrow> real \<times> real \<times> real \<Rightarrow> game \<Rightarrow> game" where
  "spawnOneBlock i r g =
     (case r of (r1, r2, r3) \<Rightarrow>
        let blockX = r1 * (containerWidth g - 40);
            blockHp = \<lfloor>r2 * 10\<rfloor> + 1;
            isBreakable = (r3 > 0.1);
            newBlock = \<lparr>block_id = blockIdRef g, block_x = blockX,
                          block_y = - 50 - real i * 60,
                          block_hp = (if isBreakable then blockHp else 999),
                          block_isHit = False, block_isBreakable = isBreakable\<rparr>
        in g\<lparr>blocksRef := blocksRef g @ [newBlock], blockIdRef := blockIdRef g + 1\<rparr>)"

definition spawnBlock :: "(nat \<Rightarrow> real \<times> real \<times> real) \<Rightarrow> game \<Rightarrow> game" where
  "spawnBlock rnd g =
     (if gameState g = playing
      then (fold (\<lambda>i. spawnOneBlock i (rnd i)) [0 ..< nat (blocksPerWave g)] g)
             \<lparr>needsRenderRef := True\<rparr>
      else g)"

section \<open>Firing\<close>

text \<open>\<^verbatim>\<open>fireBullet\<close>, called every 50ms; \<open>now\<close> is \<^verbatim>\<open>Date.now()\<close>.\<close>

definition fireBullet :: "int \<Rightarrow> game \<Rightarrow> game" where
  "fireBullet now g =
     (if gameState g = playing
      then let fireRate = (if activePowerUps g fireSpeed then 100 else 200 :: int)
           in if now - lastFireTimeRef g < fireRate then g
              else let g0 = g\<lparr>lastFireTimeRef := now\<rparr>;
                       bulletX = position_x g + 48 / 2 - 4;
                       bulletY = position_y g - 8
                   in (if activePowerUps g multiDirectional
                       then (case createBullet bulletX bulletY 0 g0 of (b1, g1) \<Rightarrow>
                             case createBullet (bulletX - 8) bulletY (- 30) g1 of (b2, g2) \<Rightarrow>
                             case createBullet (bulletX + 8) bulletY 30 g2 of (b3, g3) \<Rightarrow>
                               g3\<lparr>bulletsRef := bulletsRef g3 @ [b1, b2, b3]\<rparr>)
                       else (case createBullet bulletX bulletY 0 g0 of (b1, g1) \<Rightarrow>
                               g1\<lparr>bulletsRef := bulletsRef g1 @ [b1]\<rparr>))
                      \<lparr>needsRenderRef := True\<rparr>
      else g)"

section \<open>The animation loops\<close>

text \<open>\<^verbatim>\<open>updateRender\<close> publishes the score to the render state while the game is played.\<close>

definition updateRender :: "game \<Rightarrow> game" where
  "updateRender g =
     (let g1 = (if needsRenderRef g \<and> gameState g = playing
                then g\<lparr>score := scoreRef g, needsRenderRef := False\<rparr> else g)
      in snd (requestAnimationFrame Render g1))"

definition clampTo :: "real \<Rightarrow> real \<Rightarrow> real" where
  "clampTo hi v = max 0 (min hi v)"

definition animatePlayer :: "game \<Rightarrow> game" where
  "animatePlayer g =
     (if gameState g \<noteq> playing then g
      else let speed = 5;
               up = (key_ArrowUp (keys g) \<or> key_w (keys g));
               down = (key_ArrowDown (keys g) \<or> key_s (keys g));
               left = (key_ArrowLeft (keys g) \<or> key_a (keys g));
               right = (key_ArrowRight (keys g) \<or> key_d (keys g));
               newY = position_y g - (if up then speed else 0) + (if down then speed else 0);
               newX = position_x g - (if left then speed else 0) + (if right then speed else 0);
               positionChanged = (up \<or> down \<or> left \<or> right);
               g1 = (if positionChanged \<and> \<not> isDragging g
                     then g\<lparr>position_x := clampTo (containerWidth g - 48) newX,
                            position_y := clampTo (containerHeight g - 48) newY\<rparr>
                     else g)
           in scheduleLoop AnimPlayer g1)"

text \<open>
  The arithmetic of the bullet motion is that of IEEE 754 binary64 numbers. \<open>fl\<close> rounds
  a real to the nearest double, ties to even: the unit in the last place of \<open>x\<close> is
  2 to the power \<open>\<lfloor>log 2 \<bar>x\<bar>\<rfloor> - 52\<close>, and at least \<open>2 powr - 1074\<close> (the
  subnormal numbers). Overflow to an infinity is left out: it needs a magnitude of
  \<open>2 ^ 1024\<close>. Every \<^verbatim>\<open>+\<close>, \<^verbatim>\<open>*\<close> and \<^verbatim>\<open>/\<close> of doubles returns the rounded exact
  result; the unary minus is exact.
\<close>

definition roundEven :: "real \<Rightarrow> int" where
  "roundEven q =
     (let n = \<lfloor>q\<rfloor>; d = q - of_int n
      in if d < 1 / 2 then n else if 1 / 2 < d then n + 1 else if even n then n else n + 1)"

definition fl :: "real \<Rightarrow> real" where
  "fl x =
     (if x = 0 then 0
      else let e = max (\<lfloor>log 2 \<bar>x\<bar>\<rfloor> - 52) (- 1074)
           in of_int (roundEven (x / 2 powr of_int e)) * 2 powr of_int e)"

text \<open>
  \<^verbatim>\<open>Math.PI\<close> is the double nearest to \<open>pi\<close>, \<open>884279719003555 / 2 ^ 48\<close>.
  ECMAScript leaves \<^verbatim>\<open>Math.sin\<close> and \<^verbatim>\<open>Math.cos\<close> to the implementation
  (``implementation-approximated''), except that \<^verbatim>\<open>Math.sin(0)\<close> is 0 and
  \<^verbatim>\<open>Math.cos(0)\<close> is 1, and that the result is a double. The model fixes no more than
  that: what is proved of \<open>Math_sin\<close> and \<open>Math_cos\<close> holds of every implementation.
\<close>

definition Math_PI :: real where
  "Math_PI = 884279719003555 / 281474976710656"

definition Math_sin :: "real \<Rightarrow> real" where
  "Math_sin = (SOME f. f 0 = 0 \<and> (\<forall>x. fl (f x) = f x))"

definition Math_cos :: "real \<Rightarrow> real" where
  "Math_cos = (SOME f. f 0 = 1 \<and> (\<forall>x. fl (f x) = f x))"

text \<open>
  The position update of one bullet (lines 905 to 912); \<^verbatim>\<open>bullet.angle || 0\<close> is 0
  without an angle. The angles of the program are 0, -30 and 30.
\<close>

definition moveBullet :: "Bullet \<Rightarrow> Bullet" where
  "moveBullet b =
     (let angle = (case bullet_angle b of None \<Rightarrow> 0 | Some a \<Rightarrow> a);
          radians = fl (fl (angle * Math_PI) / 180);
          speedX = fl (Math_sin radians * 10);
          speedY = fl (- Math_cos radians * 10)
      in b\<lparr>bullet_x := fl (bullet_x b + speedX), bullet_y := fl (bullet_y b + speedY)\<rparr>)"

text \<open>
  The loop of \<^verbatim>\<open>animateBullets\<close> over the live bullets: the pair of
  \<^verbatim>\<open>keptBullets\<close> and \<^verbatim>\<open>recycledBullets\<close>, each in the order of the pushes.
\<close>

fun partitionBullets :: "Bullet list \<Rightarrow> Bullet list \<times> Bullet list" where
  "partitionBullets [] = ([], [])"
| "partitionBullets (bullet # rest) =
     (let b = moveBullet bullet
      in case partitionBullets rest of
           (keptBullets, recycledBullets) \<Rightarrow>
             if bullet_y b > - 20 then (b # keptBullets, recycledBullets)
             else (keptBullets, b # recycledBullets))"

definition animateBullets :: "game \<Rightarrow> game" where
  "animateBullets g =
     (if gameState g \<noteq> playing then g
      else case partitionBullets (bulletsRef g) of
        (keptBullets, recycledBullets) \<Rightarrow>
          let g1 = g\<lparr>bulletsRef := keptBullets\<rparr>;
              g2 = (if length recycledBullets > 0 then recycleBullets recycledBullets g1 else g1)
          in scheduleLoop AnimBullets (g2\<lparr>needsRenderRef := True\<rparr>))"

definition animateObjects :: "game \<Rightarrow> game" where
  "animateObjects g =
     (if gameState g \<noteq> playing then g
      else let currentFallSpeed = (if activePowerUps g slowMotion
                                   then blockFallSpeed g * 0.5 else blockFallSpeed g);
               updatedBlocks =
                 filter (\<lambda>block. block_y block < containerHeight g + 50 \<and>
                                  (if block_isBreakable block then block_hp block > 0 else True))
                   (map (\<lambda>block. block\<lparr>block_y := block_y block + currentFallSpeed\<rparr>)
                      (blocksRef g));
               updatedPowerUps =
                 filter (\<lambda>powerUp. powerUp_y powerUp < containerHeight g + 50)
                   (map (\<lambda>powerUp. powerUp\<lparr>powerUp_y := powerUp_y powerUp + 2\<rparr>)
                      (powerUpsRef g))
           in scheduleLoop AnimObjects
                (g\<lparr>blocksRef := updatedBlocks, powerUpsRef := updatedPowerUps,
                   needsRenderRef := True\<rparr>))"

section \<open>Collisions of bullets and blocks\<close>

text \<open>The test of \<^verbatim>\<open>checkCollisions\<close>: bullet hitbox 8 by 16, block hitbox 40 by 40.\<close>

definition bulletHitsBlock :: "Bullet \<Rightarrow> Block \<Rightarrow> bool" where
  "bulletHitsBlock bullet block =
     (bullet_x bullet + 8 > block_x block \<and>
      bullet_x bullet < block_x block + 40 \<and>
      bullet_y bullet + 16 > block_y block \<and>
      bullet_y bullet < block_y block + 40)"

text \<open>The update of the block that a bullet hits (lines 1031-1036).\<close>

definition hitBlock :: "Block \<Rightarrow> Block" where
  "hitBlock block =
     (if block_isBreakable block
      then block\<lparr>block_hp := block_hp block - 1, block_isHit := True\<rparr>
      else block\<lparr>block_isHit := True\<rparr>)"

text \<open>
  The inner loop over the blocks for one bullet: the blocks after it, whether the
  bullet hit one, and the score gained. It stops at the first block hit (\<^verbatim>\<open>break\<close>).
\<close>

fun scanBlocks :: "Bullet \<Rightarrow> Block list \<Rightarrow> Block list \<times> bool \<times> int" where
  "scanBlocks bullet [] = ([], False, 0)"
| "scanBlocks bullet (block # rest) =
     (if bulletHitsBlock bullet block
      then (hitBlock block # rest, True, (if block_isBreakable block then 1 else 0))
      else case scanBlocks bullet rest of (rest', hit, gained) \<Rightarrow> (block # rest', hit, gained))"

text \<open>
  The outer loop over the bullets, threading the blocks, \<^verbatim>\<open>scoreRef.current\<close>,
  \<^verbatim>\<open>bulletsToRecycle\<close> and \<^verbatim>\<open>hitDetected\<close>.
\<close>

fun scanBullets ::
  "Bullet list \<Rightarrow> Block list \<Rightarrow> int \<Rightarrow> Bullet list \<Rightarrow> bool \<Rightarrow> Block list \<times> int \<times> Bullet list \<times> bool"
where
  "scanBullets [] blocks sc bulletsToRecycle hitDetected = (blocks, sc, bulletsToRecycle, hitDetected)"
| "scanBullets (bullet # rest) blocks sc bulletsToRecycle hitDetected =
     (case scanBlocks bullet blocks of
        (blocks', hit, gained) \<Rightarrow>
          if hit then scanBullets rest blocks' (sc + gained) (bulletsToRecycle @ [bullet]) True
          else scanBullets rest blocks sc bulletsToRecycle hitDetected)"

definition checkCollisions :: "game \<Rightarrow> game" where
  "checkCollisions g =
     (if gameState g \<noteq> playing then g
      else if length (bulletsRef g) = 0 \<or> length (blocksRef g) = 0
      then scheduleLoop Collisions g
      else case scanBullets (bulletsRef g) (blocksRef g) (scoreRef g) [] False of
        (blocks', sc, bulletsToRecycle, hitDetected) \<Rightarrow>
          let g1 = g\<lparr>blocksRef := blocks', scoreRef := sc\<rparr>;
              g2 = (if length bulletsToRecycle > 0
                    then recycleBullets bulletsToRecycle
                           (g1\<lparr>bulletsRef :=
                                 filter (\<lambda>bullet. \<not> list_ex (\<lambda>b. bullet_id b = bullet_id bullet)
                                                        bulletsToRecycle)
                                   (bulletsRef g1)\<rparr>)
                    else g1);
              g3 = (if hitDetected
                    then g2\<lparr>blocksRef := filter (\<lambda>block. \<not> block_isBreakable block \<or> block_hp block > 0)
                                             (blocksRef g2),
                            needsRenderRef := True,
                            hitResetPending := hitResetPending g2 + 1\<rparr>
                    else g2)
          in scheduleLoop Collisions g3)"

text \<open>The callback of the 50ms timeout that \<^verbatim>\<open>checkCollisions\<close> sets after a hit.\<close>

definition hitResetTimeout :: "game \<Rightarrow> game" where
  "hitResetTimeout g =
     (if hitResetPending g = 0 then g
      else g\<lparr>blocksRef := map (\<lambda>block. block\<lparr>block_isHit := False\<rparr>) (blocksRef g),
             needsRenderRef := True,
             hitResetPending := hitResetPending g - 1\<rparr>)"

section \<open>Collisions of the player, game over and start\<close>

definition triggerGameOver :: "game \<Rightarrow> game" where
  "triggerGameOver g = (cancelAllFrames g)\<lparr>gameState := gameOver\<rparr>"

text \<open>The player's hitbox is 48 by 48 at \<^verbatim>\<open>positionRef.current\<close>; a block's is 40 by 40.\<close>

definition playerHitsBlock :: "game \<Rightarrow> Block \<Rightarrow> bool" where
  "playerHitsBlock g block =
     (position_x g < block_x block + 40 \<and>
      position_x g + 48 > block_x block \<and>
      position_y g < block_y block + 40 \<and>
      position_y g + 48 > block_y block)"

definition playerHitsPowerUp :: "game \<Rightarrow> PowerUp \<Rightarrow> bool" where
  "playerHitsPowerUp g powerUp =
     (position_x g < powerUp_x powerUp + 30 \<and>
      position_x g + 48 > powerUp_x powerUp \<and>
      position_y g < powerUp_y powerUp + 30 \<and>
      position_y g + 48 > powerUp_y powerUp)"

definition checkPlayerCollisions :: "game \<Rightarrow> game" where
  "checkPlayerCollisions g =
     (if gameState g \<noteq> playing then g
      else if list_ex (playerHitsBlock g) (blocksRef g) then triggerGameOver g
      else let powerUpsToCollect = map powerUp_id (filter (playerHitsPowerUp g) (powerUpsRef g));
               g1 = fold (\<lambda>powerUp g'. if playerHitsPowerUp g powerUp
                                         then activatePowerUp (powerUp_type powerUp) g' else g')
                      (powerUpsRef g) g;
               g2 = (if length powerUpsToCollect > 0
                     then g1\<lparr>powerUpsRef :=
                               filter (\<lambda>powerUp. \<not> List.member powerUpsToCollect (powerUp_id powerUp))
                                 (powerUpsRef g1),
                             needsRenderRef := True\<rparr>
                     else g1)
           in scheduleLoop PlayerCollisions g2)"

text \<open>
  \<^verbatim>\<open>startAnimationLoops\<close> registers the five loops, and \<^verbatim>\<open>startGame\<close> resets the
  session and calls it. The arguments of \<open>startGame\<close> are the \<^verbatim>\<open>keys\<close> and
  \<^verbatim>\<open>isDragging\<close> that the closure holds.
\<close>

definition startAnimationLoops :: "game \<Rightarrow> game" where
  "startAnimationLoops g =
     scheduleLoop PlayerCollisions
       (scheduleLoop Collisions
         (scheduleLoop AnimObjects
           (scheduleLoop AnimBullets
             (scheduleLoop AnimPlayer g))))"

definition startGame :: "Keys \<Rightarrow> bool \<Rightarrow> game \<Rightarrow> game" where
  "startGame ks dragging g =
     startAnimationLoops
       ((cancelAllFrames g)
          \<lparr>position_x := containerWidth g / 2 - 24,
           position_y := containerHeight g - 100,
           gameState := playing,
           bulletsRef := [], blocksRef := [], powerUpsRef := [],
           scoreRef := 0, score := 0, gameTime := 0,
           blockSpawnRate := 2000, blockFallSpeed := 3, blocksPerWave := 1,
           activePowerUps := (\<lambda>_. False), powerUpTimeLeft := (\<lambda>_. 0),
           bulletIdRef := 0, blockIdRef := 0, powerUpIdRef := 0,
           bulletPoolRef := [],
           keys := ks, isDragging := dragging\<rparr>)"

text \<open>
  \<^verbatim>\<open>handleTouchMove\<close> during a drag: the arguments are \<^verbatim>\<open>clientX - dragStart.x\<close> and
  \<^verbatim>\<open>clientY - dragStart.y\<close>.
\<close>

definition handleTouchMove :: "real \<Rightarrow> real \<Rightarrow> game \<Rightarrow> game" where
  "handleTouchMove newX newY g =
     (if gameState g \<noteq> playing then g
      else g\<lparr>position_x := clampTo (containerWidth g - 48) newX,
             position_y := clampTo (containerHeight g - 48) newY\<rparr>)"

section \<open>One animation frame, the effects, and the events of a session\<close>

definition callback :: "Loop \<Rightarrow> game \<Rightarrow> game" where
  "callback l =
     (case l of Render \<Rightarrow> updateRender | AnimPlayer \<Rightarrow> animatePlayer
      | AnimBullets \<Rightarrow> animateBullets | AnimObjects \<Rightarrow> animateObjects
      | Collisions \<Rightarrow> checkCollisions | PlayerCollisions \<Rightarrow> checkPlayerCollisions)"

text \<open>
  The browser runs the animation frame callbacks of a frame: for every handle that was
  in the map when the frame began, in the order of registration, the callback is run
  and removed if it is still in the map.
\<close>

definition runHandle :: "nat \<Rightarrow> game \<Rightarrow> game" where
  "runHandle h g =
     (case map_of (rafCallbacks g) h of
        None \<Rightarrow> g
      | Some l \<Rightarrow> callback l (cancelAnimationFrame h g))"

definition runFrame :: "game \<Rightarrow> game" where
  "runFrame g = fold runHandle (map fst (rafCallbacks g)) g"

text \<open>
  The effects that depend on \<^verbatim>\<open>gameState\<close> and \<^verbatim>\<open>score\<close>, run after the render that
  follows an event: \<^verbatim>\<open>finalScoreRef.current = score\<close> when the game is over (lines
  570-574), and the cancellation of all frames when it is not played (lines 592-600).
\<close>

definition effects :: "game \<Rightarrow> game" where
  "effects g =
     (let g1 = (if gameState g = gameOver then g\<lparr>finalScoreRef := score g\<rparr> else g)
      in if gameState g1 \<noteq> playing then cancelAllFrames g1 else g1)"

datatype event =
    StartGame Keys bool
  | Frame
  | GameTimer real real
  | PowerUpTimer
  | FiringTimer int
  | BlockTimer "nat \<Rightarrow> real \<times> real \<times> real"
  | TouchMove real real
  | HitResetTimeout

definition handle :: "event \<Rightarrow> game \<Rightarrow> game" where
  "handle e g =
     (case e of
        StartGame ks dragging \<Rightarrow> startGame ks dragging g
      | Frame \<Rightarrow> runFrame g
      | GameTimer rx rt \<Rightarrow> gameTimerTick rx rt g
      | PowerUpTimer \<Rightarrow> powerUpTimerTick g
      | FiringTimer now \<Rightarrow> fireBullet now g
      | BlockTimer rnd \<Rightarrow> spawnBlock rnd g
      | TouchMove newX newY \<Rightarrow> handleTouchMove newX newY g
      | HitResetTimeout \<Rightarrow> hitResetTimeout g)"

definition step :: "event \<Rightarrow> game \<Rightarrow> game" where
  "step e g = effects (handle e g)"

definition run :: "event list \<Rightarrow> game \<Rightarrow> game" where
  "run es g = fold step es g"

text \<open>The states that a mounted component reaches by its events.\<close>

inductive reachable :: "game \<Rightarrow> bool" where
  reachable_init: "reachable (initialGame cw ch)"
| reachable_step: "reachable g \<Longrightarrow> reachable (step e g)"

section \<open>Notions used in the statements\<close>

text \<open>
  A power-up slot is consistent when its flag is set exactly when seconds remain;
  \<open>slotsOk\<close> says so of the three slots.
\<close>

definition slotConsistent :: "game \<Rightarrow> PowerUpType \<Rightarrow> bool" where
  "slotConsistent g t = (activePowerUps g t \<longleftrightarrow> powerUpTimeLeft g t > 0)"

definition slotsOk :: "game \<Rightarrow> bool" where
  "slotsOk g = (slotConsistent g fireSpeed \<and> slotConsistent g multiDirectional \<and>
                slotConsistent g slowMotion)"

text \<open>A session started in a container of 400 by 600 pixels, with no key held.\<close>

definition exampleStart :: game where
  "exampleStart = step (StartGame noKeys False) (initialGame 400 600)"

text \<open>
  The closed forms of the specification for the difficulty after \<open>t\<close> seconds:
  \<^verbatim>\<open>min(1 + floor(t/10), 5)\<close>, \<^verbatim>\<open>3 + 0.5 * floor(t/15)\<close> and
  \<^verbatim>\<open>max(2000 - 300*floor(t/20), 500)\<close>; \<open>difficultyOk\<close> says that the state agrees with
  them at its \<^verbatim>\<open>gameTime\<close> and has spawned one power-up per 20 seconds.
\<close>

definition spec_obstaclesPerWave :: "nat \<Rightarrow> int" where
  "spec_obstaclesPerWave t = min (1 + int (t div 10)) 5"

definition spec_fallSpeed :: "nat \<Rightarrow> real" where
  "spec_fallSpeed t = 3 + 0.5 * real (t div 15)"

definition spec_spawnInterval :: "nat \<Rightarrow> int" where
  "spec_spawnInterval t = max (2000 - 300 * int (t div 20)) 500"

definition difficultyOk :: "game \<Rightarrow> bool" where
  "difficultyOk g =
     (blocksPerWave g = spec_obstaclesPerWave (gameTime g) \<and>
      blockFallSpeed g = spec_fallSpeed (gameTime g) \<and>
      blockSpawnRate g = spec_spawnInterval (gameTime g) \<and>
      powerUpIdRef g = gameTime g div 20)"

definition isStart :: "event \<Rightarrow> bool" where
  "isStart e = (case e of StartGame ks dragging \<Rightarrow> True | _ \<Rightarrow> False)"

text \<open>The example session after \<open>n\<close> ticks of the game timer.\<close>

definition exampleAfter :: "nat \<Rightarrow> game" where
  "exampleAfter n = run (replicate n (GameTimer (1/2) (1/2))) exampleStart"

text \<open>
  The invariant of the bullet pool: the identifiers of the live and the pooled bullets
  (and of bullets \<open>pending\<close>, created but not yet pushed) are pairwise distinct and below
  the counter, and the pool holds at most \<^verbatim>\<open>MAX_BULLETS\<close> bullets.
\<close>

definition poolOkWith :: "Bullet list \<Rightarrow> game \<Rightarrow> bool" where
  "poolOkWith pending g =
     (distinct (map bullet_id (pending @ bulletsRef g @ bulletPoolRef g)) \<and>
      list_all (\<lambda>b. bullet_id b < bulletIdRef g) (pending @ bulletsRef g @ bulletPoolRef g) \<and>
      length (bulletPoolRef g) \<le> MAX_BULLETS)"

definition poolOk :: "game \<Rightarrow> bool" where
  "poolOk g = poolOkWith [] g"

text \<open>A sequence of acquisitions from the pool, one for each triple of arguments.\<close>

fun acquireAll :: "(real \<times> real \<times> real) list \<Rightarrow> game \<Rightarrow> Bullet list \<times> game" where
  "acquireAll [] g = ([], g)"
| "acquireAll ((x, y, ang) # rest) g =
     (case createBullet x y ang g of
        (b, g') \<Rightarrow> (case acquireAll rest g' of (bs, g'') \<Rightarrow> (b # bs, g'')))"

text \<open>
  The collision pass in the words of the specification: a bullet overlaps some block
  or none; the first block it overlaps, by index in iteration order; the resolution of
  one bullet against that block only, which marks the block hit and, exactly when the
  block is breakable, takes one hit point and adds one to the score.
\<close>

definition hitsAny :: "Bullet \<Rightarrow> Block list \<Rightarrow> bool" where
  "hitsAny bullet blocks = list_ex (bulletHitsBlock bullet) blocks"

definition firstOverlap :: "Bullet \<Rightarrow> Block list \<Rightarrow> nat option" where
  "firstOverlap bullet blocks =
     (if hitsAny bullet blocks
      then Some (length (takeWhile (\<lambda>block. \<not> bulletHitsBlock bullet block) blocks))
      else None)"

definition spec_hit :: "Block \<Rightarrow> Block" where
  "spec_hit block =
     block\<lparr>block_hp := block_hp block - (if block_isBreakable block then 1 else 0),
            block_isHit := True\<rparr>"

definition spec_resolve :: "Bullet \<Rightarrow> Block list \<times> int \<Rightarrow> Block list \<times> int" where
  "spec_resolve bullet st =
     (case st of (blocks, sc) \<Rightarrow>
        case firstOverlap bullet blocks of
          None \<Rightarrow> (blocks, sc)
        | Some j \<Rightarrow> (blocks[j := spec_hit (blocks ! j)],
                     sc + (if block_isBreakable (blocks ! j) then 1 else 0)))"



text \<open>
  Example sessions in a container of 400 by 600 pixels. In \<open>exampleClash\<close> a block with
  6 hit points is spawned above the player, who is dragged to the top edge; after three
  frames a bullet is fired. In \<open>exampleEdge\<close> the player is dragged to 8 pixels below the
  top edge and fires, and one frame passes.
\<close>

definition exampleClash :: game where
  "exampleClash =
     run [StartGame noKeys False, BlockTimer (\<lambda>i. (1/2, 1/2, 1/2)), TouchMove 176 0,
          Frame, Frame, Frame, FiringTimer 1000] (initialGame 400 600)"


text \<open>
  In \<open>exampleBusy\<close> four bullets are fired and leave the top of the container, which puts
  them into the pool; a block with one hit point and, three frames later, a block with
  6 hit points are spawned in the same column above the player; the player fires twice
  below them, is dragged to the left edge and fires once more. Three bullets are live
  and one is left in the pool.
\<close>

definition exampleBusy :: game where
  "exampleBusy =
     run [StartGame noKeys False, TouchMove 176 0,
          FiringTimer 1000, FiringTimer 1200, FiringTimer 1400, FiringTimer 1600, Frame, Frame,
          BlockTimer (\<lambda>i. (1/2, 0, 1/2)), Frame, Frame, Frame,
          BlockTimer (\<lambda>i. (1/2, 1/2, 1/2)),
          FiringTimer 1800, FiringTimer 2000, TouchMove 0 0, FiringTimer 2200]
       (initialGame 400 600)"

text \<open>
  The pending animation frame callbacks of a played game: \<^verbatim>\<open>updateRender\<close> and then the
  five loops with consecutive handles from \<open>k\<close>, which \<^verbatim>\<open>animationFrameIds\<close> records;
  otherwise \<^verbatim>\<open>updateRender\<close> alone. \<open>prependCallbacks\<close> puts callbacks in front of the
  pending ones.
\<close>

definition gameQueue :: "nat \<Rightarrow> (nat \<times> Loop) list" where
  "gameQueue k = [(k, AnimPlayer), (k + 1, AnimBullets), (k + 2, AnimObjects),
                  (k + 3, Collisions), (k + 4, PlayerCollisions)]"

definition gameIds :: "nat \<Rightarrow> Loop \<Rightarrow> nat option" where
  "gameIds k = [AnimPlayer \<mapsto> k, AnimBullets \<mapsto> k + 1, AnimObjects \<mapsto> k + 2,
                Collisions \<mapsto> k + 3, PlayerCollisions \<mapsto> k + 4]"

definition schedOk :: "game \<Rightarrow> bool" where
  "schedOk g =
     (if gameState g = playing
      then (\<exists>m k. 0 < m \<and> m < k \<and> rafCallbacks g = (m, Render) # gameQueue k \<and>
                  rafNextHandle g = k + 5 \<and> animationFrameIds g = gameIds k)
      else (\<exists>m. 0 < m \<and> m < rafNextHandle g \<and> rafCallbacks g = [(m, Render)] \<and>
                animationFrameIds g = (\<lambda>_. None)))"

definition prependCallbacks :: "(nat \<times> Loop) list \<Rightarrow> game \<Rightarrow> game" where
  "prependCallbacks c g = g\<lparr>rafCallbacks := c @ rafCallbacks g\<rparr>"

text \<open>
  The state that a frame hands to \<^verbatim>\<open>checkCollisions\<close>. A frame runs the callbacks of
  the handles that are pending at its start (\<open>frameHandles\<close>), in order. In a played game
  the fifth of them is the handle of \<^verbatim>\<open>checkCollisions\<close>: when the frame calls it, the
  callbacks of the first four handles have run and the fifth handle has left the map of
  pending callbacks. \<open>blocksOk\<close> is the invariant of the block identifiers: pairwise
  distinct and below the counter.
\<close>

definition frameHandles :: "game \<Rightarrow> nat list" where
  "frameHandles g = map fst (rafCallbacks g)"

definition passState :: "game \<Rightarrow> game" where
  "passState g =
     cancelAnimationFrame (frameHandles g ! 4) (fold runHandle (take 4 (frameHandles g)) g)"

definition blocksOk :: "game \<Rightarrow> bool" where
  "blocksOk g =
     (distinct (map block_id (blocksRef g)) \<and>
      list_all (\<lambda>block. block_id block < blockIdRef g) (blocksRef g))"

section \<open>Properties\<close>

subsection \<open>Frames and invariants: general lemmas\<close>

lemma fold_cancel_callbacks:
  "fold (\<lambda>l g'. case ids l of None \<Rightarrow> g'
                 | Some h \<Rightarrow> if h \<noteq> 0 then cancelAnimationFrame h g' else g') ls g =
   g\<lparr>rafCallbacks := filter (\<lambda>e. \<not> list_ex (\<lambda>l. ids l = Some (fst e) \<and> fst e \<noteq> 0) ls)
                        (rafCallbacks g)\<rparr>"
proof (induction ls arbitrary: g)
  case Nil
  then show ?case by simp
next
  case (Cons l ls)
  have eq: "(\<lambda>x. fst x \<noteq> a \<and> P x) = (\<lambda>e. a \<noteq> fst e \<and> P e)" for a :: nat and P :: "nat \<times> Loop \<Rightarrow> bool"
    by auto
  show ?case
    by (cases "ids l") (auto simp: Cons cancelAnimationFrame_def eq)
qed

lemma cancelAllFrames_upd:
  "cancelAllFrames g =
   g\<lparr>rafCallbacks := filter (\<lambda>e. \<not> list_ex (\<lambda>l. animationFrameIds g l = Some (fst e) \<and> fst e \<noteq> 0) gameLoops)
                        (rafCallbacks g),
     animationFrameIds := (\<lambda>_. None)\<rparr>"
  unfolding cancelAllFrames_def fold_cancel_callbacks by simp

lemma scheduleLoop_upd:
  "scheduleLoop l g =
   g\<lparr>rafCallbacks := rafCallbacks g @ [(rafNextHandle g, l)],
     rafNextHandle := rafNextHandle g + 1,
     animationFrameIds := (animationFrameIds g)(l := Some (rafNextHandle g))\<rparr>"
  by (simp add: scheduleLoop_def requestAnimationFrame_def)

lemma fold_invariant:
  assumes "P g" and "\<And>x g. P g \<Longrightarrow> P (f x g)"
  shows "P (fold f xs g)"
  using assms(1) by (induction xs arbitrary: g) (auto intro: assms(2))

lemma runFrame_invariant:
  assumes "P g"
    and "\<And>h g. P g \<Longrightarrow> P (cancelAnimationFrame h g)"
    and "\<And>l g. P g \<Longrightarrow> P (callback l g)"
  shows "P (runFrame g)"
  unfolding runFrame_def
proof (rule fold_invariant[where P = P])
  show "P g" by fact
  show "P (runHandle h g')" if "P g'" for h g'
    using that by (auto simp: runHandle_def assms split: option.splits)
qed

subsection \<open>The arithmetic of doubles\<close>

lemma roundEven_of_int [simp]: "roundEven (of_int z) = z"
  by (simp add: roundEven_def)

text \<open>The integers below \<open>2 ^ 53\<close> in magnitude are doubles.\<close>

lemma fl_of_int:
  assumes "\<bar>m\<bar> < 2 ^ 53"
  shows "fl (of_int m) = of_int m"
proof (cases "m = 0")
  case True
  then show ?thesis by (simp add: fl_def)
next
  case False
  define x :: real where "x = of_int m"
  define e where "e = max (\<lfloor>log 2 \<bar>x\<bar>\<rfloor> - 52) (- 1074)"
  have pos: "0 < \<bar>x\<bar>" using False by (simp add: x_def)
  have "\<bar>x\<bar> < 2 ^ 53"
  proof -
    have "\<bar>x\<bar> = of_int \<bar>m\<bar>" by (simp add: x_def)
    also have "\<dots> < of_int (2 ^ 53)" using assms by (simp only: of_int_less_iff)
    finally show ?thesis by simp
  qed
  then have "log 2 \<bar>x\<bar> < 53"
    using pos by (simp add: log_less_iff powr_realpow)
  then have "\<lfloor>log 2 \<bar>x\<bar>\<rfloor> < 53" by (simp add: floor_less_iff)
  then have e0: "e \<le> 0" by (simp add: e_def)
  define n where "n = nat (- e)"
  have p: "2 powr of_int e = inverse ((2::real) ^ n)"
    using e0 by (cases "e = 0") (simp_all add: powr_real_of_int n_def)
  have q: "x / 2 powr of_int e = of_int (m * 2 ^ n)"
    by (simp add: p x_def divide_inverse)
  have "fl x = of_int (roundEven (x / 2 powr of_int e)) * 2 powr of_int e"
    using False by (simp add: fl_def x_def e_def Let_def)
  also have "\<dots> = of_int (m * 2 ^ n) * 2 powr of_int e"
    by (simp only: q roundEven_of_int)
  also have "\<dots> = of_int (m * 2 ^ n) * inverse ((2::real) ^ n)"
    by (simp only: p)
  also have "\<dots> = x" by (simp add: x_def)
  finally show ?thesis by (simp add: x_def)
qed

lemma fl_0 [simp]: "fl 0 = 0"
  by (simp add: fl_def)

lemma fl_1 [simp]: "fl 1 = 1"
  using fl_of_int[of 1] by simp

lemma fl_numeral [simp]: "(numeral k :: int) < 2 ^ 53 \<Longrightarrow> fl (numeral k) = numeral k"
  using fl_of_int[of "numeral k"] by simp

lemma fl_neg_numeral [simp]:
  "(numeral k :: int) < 2 ^ 53 \<Longrightarrow> fl (- numeral k) = - numeral k"
  using fl_of_int[of "- numeral k"] by simp

lemma Math_sin_spec: "Math_sin 0 = 0 \<and> (\<forall>x. fl (Math_sin x) = Math_sin x)"
  unfolding Math_sin_def by (rule someI[where x = "\<lambda>x. 0"]) simp

lemma Math_cos_spec: "Math_cos 0 = 1 \<and> (\<forall>x. fl (Math_cos x) = Math_cos x)"
  unfolding Math_cos_def by (rule someI[where x = "\<lambda>x. 1"]) simp

lemma Math_sin_0 [simp]: "Math_sin 0 = 0"
  using Math_sin_spec by simp

lemma Math_cos_0 [simp]: "Math_cos 0 = 1"
  using Math_cos_spec by simp


subsection \<open>The power-up effect slots\<close>

lemma slotsOk_all: "slotsOk g = (\<forall>t. slotConsistent g t)"
proof
  assume a: "slotsOk g"
  show "\<forall>t. slotConsistent g t"
  proof
    fix t show "slotConsistent g t" using a by (cases t) (simp_all add: slotsOk_def)
  qed
qed (simp add: slotsOk_def)

lemma slotsOk_activate: "slotsOk g \<Longrightarrow> slotsOk (activatePowerUp u g)"
  by (simp add: slotsOk_all slotConsistent_def activatePowerUp_def)

lemma slotsOk_raf [simp]:
  "slotsOk (g\<lparr>rafCallbacks := c\<rparr>) = slotsOk g"
  "slotsOk (g\<lparr>rafNextHandle := n\<rparr>) = slotsOk g"
  "slotsOk (g\<lparr>animationFrameIds := i\<rparr>) = slotsOk g"
  "slotsOk (g\<lparr>needsRenderRef := b\<rparr>) = slotsOk g"
  "slotsOk (g\<lparr>powerUpsRef := ps\<rparr>) = slotsOk g"
  "slotsOk (g\<lparr>gameState := st\<rparr>) = slotsOk g"
  by (simp_all add: slotsOk_all slotConsistent_def)

lemma slotsOk_checkPlayer: "slotsOk g \<Longrightarrow> slotsOk (checkPlayerCollisions g)"
  by (auto simp: checkPlayerCollisions_def triggerGameOver_def cancelAllFrames_upd scheduleLoop_upd Let_def
      slotsOk_activate intro!: fold_invariant[where P = slotsOk])

lemma slotsOk_fields [simp]:
  "slotsOk (g\<lparr>score := a1\<rparr>) = slotsOk g"
  "slotsOk (g\<lparr>scoreRef := a2\<rparr>) = slotsOk g"
  "slotsOk (g\<lparr>position_x := a3\<rparr>) = slotsOk g"
  "slotsOk (g\<lparr>position_y := a4\<rparr>) = slotsOk g"
  "slotsOk (g\<lparr>bulletsRef := a5\<rparr>) = slotsOk g"
  "slotsOk (g\<lparr>blocksRef := a6\<rparr>) = slotsOk g"
  "slotsOk (g\<lparr>bulletPoolRef := a7\<rparr>) = slotsOk g"
  "slotsOk (g\<lparr>hitResetPending := a8\<rparr>) = slotsOk g"
  "slotsOk (g\<lparr>finalScoreRef := a9\<rparr>) = slotsOk g"
  "slotsOk (g\<lparr>bulletIdRef := b1\<rparr>) = slotsOk g"
  "slotsOk (g\<lparr>blockIdRef := b2\<rparr>) = slotsOk g"
  "slotsOk (g\<lparr>powerUpIdRef := b3\<rparr>) = slotsOk g"
  "slotsOk (g\<lparr>lastFireTimeRef := b4\<rparr>) = slotsOk g"
  "slotsOk (g\<lparr>gameTime := b5\<rparr>) = slotsOk g"
  "slotsOk (g\<lparr>blockSpawnRate := b6\<rparr>) = slotsOk g"
  "slotsOk (g\<lparr>blockFallSpeed := b7\<rparr>) = slotsOk g"
  "slotsOk (g\<lparr>blocksPerWave := b8\<rparr>) = slotsOk g"
  "slotsOk (g\<lparr>keys := b9\<rparr>) = slotsOk g"
  "slotsOk (g\<lparr>isDragging := c1\<rparr>) = slotsOk g"
  by (simp_all add: slotsOk_all slotConsistent_def)

lemma slotsOk_updateRender: "slotsOk g \<Longrightarrow> slotsOk (updateRender g)"
  by (simp add: updateRender_def requestAnimationFrame_def Let_def)

lemma slotsOk_animatePlayer: "slotsOk g \<Longrightarrow> slotsOk (animatePlayer g)"
  by (simp add: animatePlayer_def scheduleLoop_upd Let_def)

lemma slotsOk_recycle [simp]: "slotsOk (recycleBullets r g) = slotsOk g"
  by (simp add: recycleBullets_def Let_def)

lemma slotsOk_animateBullets: "slotsOk g \<Longrightarrow> slotsOk (animateBullets g)"
  by (simp add: animateBullets_def scheduleLoop_upd Let_def split: prod.splits)

lemma slotsOk_animateObjects: "slotsOk g \<Longrightarrow> slotsOk (animateObjects g)"
  by (simp add: animateObjects_def scheduleLoop_upd Let_def)

lemma slotsOk_checkCollisions: "slotsOk g \<Longrightarrow> slotsOk (checkCollisions g)"
  by (simp add: checkCollisions_def scheduleLoop_upd Let_def split: prod.splits)

lemma slotsOk_callback: "slotsOk g \<Longrightarrow> slotsOk (callback l g)"
  by (cases l) (simp_all add: callback_def slotsOk_checkPlayer slotsOk_updateRender
      slotsOk_animatePlayer slotsOk_animateBullets slotsOk_animateObjects slotsOk_checkCollisions)

lemma slotsOk_startGame: "slotsOk (startGame ks d g)"
  by (simp add: startGame_def startAnimationLoops_def scheduleLoop_upd cancelAllFrames_upd)
     (simp add: slotsOk_all slotConsistent_def)

lemma slotsOk_spawnPowerUp [simp]: "slotsOk (spawnPowerUp rx rt g) = slotsOk g"
  by (simp add: spawnPowerUp_def Let_def)

lemma slotsOk_gameTimer: "slotsOk g \<Longrightarrow> slotsOk (gameTimerTick rx rt g)"
  by (simp add: gameTimerTick_def Let_def)

lemma slotsOk_powerUpTimer: "slotsOk g \<Longrightarrow> slotsOk (powerUpTimerTick g)"
  by (simp add: slotsOk_all slotConsistent_def powerUpTimerTick_def Let_def)

lemma slotsOk_createBullet: "slotsOk g \<Longrightarrow> slotsOk (snd (createBullet x y a g))"
  by (simp add: createBullet_def)

lemma slotsOk_fireBullet: "slotsOk g \<Longrightarrow> slotsOk (fireBullet now g)"
  by (simp add: fireBullet_def Let_def slotsOk_createBullet split: prod.splits)
     (metis slotsOk_createBullet slotsOk_fields(13) snd_conv)

lemma slotsOk_spawnOne [simp]: "slotsOk (spawnOneBlock i r g) = slotsOk g"
  by (simp add: spawnOneBlock_def Let_def split: prod.splits)

lemma slotsOk_spawnBlock: "slotsOk g \<Longrightarrow> slotsOk (spawnBlock rnd g)"
  by (auto simp: spawnBlock_def intro!: fold_invariant[where P = slotsOk])

lemma slotsOk_touchMove: "slotsOk g \<Longrightarrow> slotsOk (handleTouchMove nx ny g)"
  by (simp add: handleTouchMove_def)

lemma slotsOk_hitReset: "slotsOk g \<Longrightarrow> slotsOk (hitResetTimeout g)"
  by (simp add: hitResetTimeout_def)

lemma slotsOk_effects: "slotsOk g \<Longrightarrow> slotsOk (effects g)"
  by (simp add: effects_def cancelAllFrames_upd Let_def)

lemma slotsOk_handle: "slotsOk g \<Longrightarrow> slotsOk (handle e g)"
proof (cases e)
  case Frame
  assume "slotsOk g"
  then have "slotsOk (runFrame g)"
    by (rule runFrame_invariant) (simp_all add: slotsOk_callback cancelAnimationFrame_def)
  then show ?thesis by (simp add: Frame handle_def)
qed (simp_all add: handle_def slotsOk_startGame slotsOk_gameTimer slotsOk_powerUpTimer
      slotsOk_fireBullet slotsOk_spawnBlock slotsOk_touchMove slotsOk_hitReset)

lemma slotsOk_reachable: "reachable g \<Longrightarrow> slotsOk g"
proof (induction rule: reachable.induct)
  case (reachable_init cw ch)
  show ?case by (simp add: slotsOk_all slotConsistent_def initialGame_def)
next
  case (reachable_step g e)
  then show ?case by (simp add: step_def slotsOk_effects slotsOk_handle)
qed

lemma powerUpTimerTick_playing:
  assumes "gameState g = playing"
  shows "gameState (powerUpTimerTick g) = playing"
    and "powerUpTimeLeft (powerUpTimerTick g) t = max 0 (powerUpTimeLeft g t - 1)"
    and "activePowerUps (powerUpTimerTick g) t = (powerUpTimeLeft g t - 1 > 0)"
  using assms by (auto simp: powerUpTimerTick_def Let_def)

lemma powerUpTimer_funpow_state:
  "gameState g = playing \<Longrightarrow> gameState ((powerUpTimerTick ^^ n) g) = playing"
  by (induction n) (simp_all add: powerUpTimerTick_playing)

lemma powerUpTimer_funpow_left:
  assumes "gameState g = playing"
  shows "powerUpTimeLeft ((powerUpTimerTick ^^ Suc n) g) t = max 0 (powerUpTimeLeft g t - int (Suc n)) \<and>
   activePowerUps ((powerUpTimerTick ^^ Suc n) g) t = (powerUpTimeLeft g t - int (Suc n) > 0)"
proof (induction n)
  case 0
  show ?case using assms by (simp add: powerUpTimerTick_playing)
next
  case (Suc n)
  let ?h = "(powerUpTimerTick ^^ Suc n) g"
  have p: "gameState ?h = playing"
    using assms by (rule powerUpTimer_funpow_state)
  have eq: "(powerUpTimerTick ^^ Suc (Suc n)) g = powerUpTimerTick ?h"
    by simp
  have l: "powerUpTimeLeft ?h t = max 0 (powerUpTimeLeft g t - int (Suc n))"
    using Suc by blast
  show ?case
    unfolding eq powerUpTimerTick_playing(2,3)[OF p] l by auto
qed

text \<open>
  Claim C6. In every reachable state each power-up slot is active exactly when its
  seconds remaining are positive, and session start, activation and the countdown keep
  it so. Activation sets the slot active with 5 seconds for slow motion and 10 for the
  other two, whatever it held before. While the game is played a countdown tick
  lowers each slot by one, not below zero, and after an activation the slot is active
  after \<open>n\<close> ticks exactly when \<open>n\<close> is less than that duration.
\<close>

theorem powerUp_effect_slots:
  "(reachable g \<longrightarrow> slotConsistent g t) \<and>
   slotConsistent (startGame ks d g) t \<and>
   (slotConsistent g t \<longrightarrow> slotConsistent (activatePowerUp u g) t) \<and>
   (slotConsistent g t \<longrightarrow> slotConsistent (powerUpTimerTick g) t) \<and>
   activePowerUps (activatePowerUp u g) u \<and>
   powerUpTimeLeft (activatePowerUp u g) u = (if u = slowMotion then 5 else 10) \<and>
   (gameState g = playing \<longrightarrow>
      powerUpTimeLeft (powerUpTimerTick g) t = max 0 (powerUpTimeLeft g t - 1) \<and>
      (activePowerUps ((powerUpTimerTick ^^ n) (activatePowerUp u g)) u
         \<longleftrightarrow> int n < (if u = slowMotion then 5 else 10)))"
proof -
  have a: "reachable g \<longrightarrow> slotConsistent g t"
    using slotsOk_reachable[of g] by (simp add: slotsOk_all)
  have b: "slotConsistent (startGame ks d g) t"
    using slotsOk_startGame[of ks d g] by (simp add: slotsOk_all)
  have c: "slotConsistent g t \<longrightarrow> slotConsistent (activatePowerUp u g) t"
    by (simp add: slotConsistent_def activatePowerUp_def)
  have d: "slotConsistent g t \<longrightarrow> slotConsistent (powerUpTimerTick g) t"
    by (simp add: slotConsistent_def powerUpTimerTick_def Let_def)
  have e: "activePowerUps (activatePowerUp u g) u"
    "powerUpTimeLeft (activatePowerUp u g) u = (if u = slowMotion then 5 else 10)"
    by (simp_all add: activatePowerUp_def)
  have f: "powerUpTimeLeft (powerUpTimerTick g) t = max 0 (powerUpTimeLeft g t - 1)"
    if "gameState g = playing"
    using that by (simp add: powerUpTimerTick_def Let_def)
  have h: "activePowerUps ((powerUpTimerTick ^^ n) (activatePowerUp u g)) u
         \<longleftrightarrow> int n < (if u = slowMotion then 5 else 10)" if p: "gameState g = playing"
  proof (cases n)
    case 0
    then show ?thesis by (simp add: activatePowerUp_def)
  next
    case (Suc m)
    have "gameState (activatePowerUp u g) = playing"
      using p by (simp add: activatePowerUp_def)
    from powerUpTimer_funpow_left[OF this, of m u] Suc show ?thesis
      by (simp add: e(2))
  qed
  show ?thesis using a b c d e f h by blast
qed

lemma exampleStart_playing: "gameState exampleStart = playing"
  by (simp add: exampleStart_def step_def handle_def startGame_def startAnimationLoops_def
      scheduleLoop_upd cancelAllFrames_upd effects_def Let_def)

theorem powerUp_effect_slots_witness:
  "reachable exampleStart \<and> gameState exampleStart = playing \<and>
   slotConsistent exampleStart slowMotion \<and>
   activePowerUps ((powerUpTimerTick ^^ 4) (activatePowerUp slowMotion exampleStart)) slowMotion \<and>
   \<not> activePowerUps ((powerUpTimerTick ^^ 5) (activatePowerUp slowMotion exampleStart)) slowMotion \<and>
   activePowerUps ((powerUpTimerTick ^^ 9) (activatePowerUp fireSpeed exampleStart)) fireSpeed \<and>
   \<not> activePowerUps ((powerUpTimerTick ^^ 10) (activatePowerUp fireSpeed exampleStart)) fireSpeed"
proof -
  have r: "reachable exampleStart"
    unfolding exampleStart_def by (intro reachable.intros)
  have p: "gameState exampleStart = playing" by (rule exampleStart_playing)
  show ?thesis
    using r p
      powerUp_effect_slots[of exampleStart slowMotion noKeys False slowMotion 4]
      powerUp_effect_slots[of exampleStart slowMotion noKeys False slowMotion 5]
      powerUp_effect_slots[of exampleStart fireSpeed noKeys False fireSpeed 9]
      powerUp_effect_slots[of exampleStart fireSpeed noKeys False fireSpeed 10]
    by simp
qed

subsection \<open>The difficulty timer\<close>

lemma difficultyOk_ignores [simp]:
  "difficultyOk (g\<lparr>gameState := v1\<rparr>) = difficultyOk g "
  "difficultyOk (g\<lparr>activePowerUps := v2\<rparr>) = difficultyOk g "
  "difficultyOk (g\<lparr>powerUpTimeLeft := v3\<rparr>) = difficultyOk g "
  "difficultyOk (g\<lparr>position_x := v4\<rparr>) = difficultyOk g "
  "difficultyOk (g\<lparr>position_y := v5\<rparr>) = difficultyOk g "
  "difficultyOk (g\<lparr>keys := v6\<rparr>) = difficultyOk g "
  "difficultyOk (g\<lparr>isDragging := v7\<rparr>) = difficultyOk g "
  "difficultyOk (g\<lparr>bulletsRef := v8\<rparr>) = difficultyOk g "
  "difficultyOk (g\<lparr>blocksRef := v9\<rparr>) = difficultyOk g "
  "difficultyOk (g\<lparr>powerUpsRef := v10\<rparr>) = difficultyOk g "
  "difficultyOk (g\<lparr>bulletPoolRef := v11\<rparr>) = difficultyOk g "
  "difficultyOk (g\<lparr>bulletIdRef := v12\<rparr>) = difficultyOk g "
  "difficultyOk (g\<lparr>blockIdRef := v13\<rparr>) = difficultyOk g "
  "difficultyOk (g\<lparr>scoreRef := v14\<rparr>) = difficultyOk g "
  "difficultyOk (g\<lparr>score := v15\<rparr>) = difficultyOk g "
  "difficultyOk (g\<lparr>finalScoreRef := v16\<rparr>) = difficultyOk g "
  "difficultyOk (g\<lparr>needsRenderRef := v17\<rparr>) = difficultyOk g "
  "difficultyOk (g\<lparr>lastFireTimeRef := v18\<rparr>) = difficultyOk g "
  "difficultyOk (g\<lparr>rafCallbacks := v19\<rparr>) = difficultyOk g "
  "difficultyOk (g\<lparr>rafNextHandle := v20\<rparr>) = difficultyOk g "
  "difficultyOk (g\<lparr>animationFrameIds := v21\<rparr>) = difficultyOk g "
  "difficultyOk (g\<lparr>containerWidth := v22\<rparr>) = difficultyOk g "
  "difficultyOk (g\<lparr>containerHeight := v23\<rparr>) = difficultyOk g "
  "difficultyOk (g\<lparr>hitResetPending := v24\<rparr>) = difficultyOk g "
  by (simp_all add: difficultyOk_def)

lemma div_Suc_step: "0 < k \<Longrightarrow> Suc t div k = (if Suc t mod k = 0 then t div k + 1 else t div k)"
  by (simp add: div_Suc mod_Suc split: if_splits)

lemma gameTimerTick_fields:
  assumes "gameState g = playing"
  shows "gameTime (gameTimerTick rx rt g) = Suc (gameTime g)"
    and "blocksPerWave (gameTimerTick rx rt g) =
           (if Suc (gameTime g) mod 10 = 0 \<and> blocksPerWave g < 5
            then min (blocksPerWave g + 1) 5 else blocksPerWave g)"
    and "blockFallSpeed (gameTimerTick rx rt g) =
           (if Suc (gameTime g) mod 15 = 0 then blockFallSpeed g + 0.5 else blockFallSpeed g)"
    and "blockSpawnRate (gameTimerTick rx rt g) =
           (if Suc (gameTime g) mod 20 = 0 \<and> blockSpawnRate g > 500
            then max (blockSpawnRate g - 300) 500 else blockSpawnRate g)"
    and "powerUpIdRef (gameTimerTick rx rt g) =
           (if Suc (gameTime g) mod 20 = 0 then powerUpIdRef g + 1 else powerUpIdRef g)"
  using assms by (simp_all add: gameTimerTick_def Let_def spawnPowerUp_def)

lemma wave_step:
  "(if Suc t mod 10 = 0 \<and> spec_obstaclesPerWave t < 5
    then min (spec_obstaclesPerWave t + 1) 5 else spec_obstaclesPerWave t) =
   spec_obstaclesPerWave (Suc t)"
  unfolding spec_obstaclesPerWave_def div_Suc_step[of 10 t, simplified]
  by auto

lemma speed_step:
  "(if Suc t mod 15 = 0 then spec_fallSpeed t + 0.5 else spec_fallSpeed t) = spec_fallSpeed (Suc t)"
  unfolding spec_fallSpeed_def div_Suc_step[of 15 t, simplified]
  by (auto simp: field_simps)

lemma interval_step:
  "(if Suc t mod 20 = 0 \<and> spec_spawnInterval t > 500
    then max (spec_spawnInterval t - 300) 500 else spec_spawnInterval t) =
   spec_spawnInterval (Suc t)"
  unfolding spec_spawnInterval_def div_Suc_step[of 20 t, simplified]
  by auto

lemma difficultyOk_tick_playing:
  assumes "difficultyOk g" "gameState g = playing"
  shows "difficultyOk (gameTimerTick rx rt g)"
proof -
  let ?t = "gameTime g"
  have w: "blocksPerWave g = spec_obstaclesPerWave ?t"
    and f: "blockFallSpeed g = spec_fallSpeed ?t"
    and i: "blockSpawnRate g = spec_spawnInterval ?t"
    and p: "powerUpIdRef g = ?t div 20"
    using assms(1) by (simp_all add: difficultyOk_def)
  have "blocksPerWave (gameTimerTick rx rt g) = spec_obstaclesPerWave (Suc ?t)"
    unfolding gameTimerTick_fields[OF assms(2)] w by (rule wave_step)
  moreover have "blockFallSpeed (gameTimerTick rx rt g) = spec_fallSpeed (Suc ?t)"
    unfolding gameTimerTick_fields[OF assms(2)] f by (rule speed_step)
  moreover have "blockSpawnRate (gameTimerTick rx rt g) = spec_spawnInterval (Suc ?t)"
    unfolding gameTimerTick_fields[OF assms(2)] i by (rule interval_step)
  moreover have "powerUpIdRef (gameTimerTick rx rt g) = Suc ?t div 20"
    unfolding gameTimerTick_fields[OF assms(2)] p div_Suc_step[of 20 ?t, simplified] by simp
  ultimately show ?thesis
    by (simp add: difficultyOk_def gameTimerTick_fields(1)[OF assms(2)])
qed

lemma difficultyOk_cancelAnimationFrame: "difficultyOk (cancelAnimationFrame h g) = difficultyOk g"
  by (simp add: cancelAnimationFrame_def)

lemma difficultyOk_cancelAllFrames: "difficultyOk (cancelAllFrames g) = difficultyOk g"
  by (simp add: cancelAllFrames_upd)

lemma difficultyOk_scheduleLoop: "difficultyOk (scheduleLoop l g) = difficultyOk g"
  by (simp add: scheduleLoop_upd)

lemma difficultyOk_recycleBullets: "difficultyOk (recycleBullets r g) = difficultyOk g"
  by (simp add: recycleBullets_def Let_def)

lemma difficultyOk_activatePowerUp: "difficultyOk (activatePowerUp u g) = difficultyOk g"
  by (simp add: activatePowerUp_def)

lemma difficultyOk_spawnOneBlock: "difficultyOk (spawnOneBlock i r g) = difficultyOk g"
  by (simp add: spawnOneBlock_def Let_def split: prod.splits)

lemma difficultyOk_createBullet: "difficultyOk (snd (createBullet x y a g)) = difficultyOk g"
  by (simp add: createBullet_def)

lemma difficultyOk_updateRender: "difficultyOk g \<Longrightarrow> difficultyOk (updateRender g)"
  by (simp add: updateRender_def requestAnimationFrame_def Let_def)

lemma difficultyOk_animatePlayer: "difficultyOk g \<Longrightarrow> difficultyOk (animatePlayer g)"
  by (simp add: animatePlayer_def Let_def difficultyOk_scheduleLoop)

lemma difficultyOk_animateBullets: "difficultyOk g \<Longrightarrow> difficultyOk (animateBullets g)"
  by (simp add: animateBullets_def Let_def difficultyOk_scheduleLoop difficultyOk_recycleBullets split: prod.splits)

lemma difficultyOk_animateObjects: "difficultyOk g \<Longrightarrow> difficultyOk (animateObjects g)"
  by (simp add: animateObjects_def Let_def difficultyOk_scheduleLoop)

lemma difficultyOk_checkCollisions: "difficultyOk g \<Longrightarrow> difficultyOk (checkCollisions g)"
  by (simp add: checkCollisions_def Let_def difficultyOk_scheduleLoop difficultyOk_recycleBullets split: prod.splits)

lemma difficultyOk_checkPlayerCollisions: "difficultyOk g \<Longrightarrow> difficultyOk (checkPlayerCollisions g)"
  by (auto simp: checkPlayerCollisions_def triggerGameOver_def Let_def difficultyOk_scheduleLoop difficultyOk_cancelAllFrames difficultyOk_activatePowerUp intro!: fold_invariant[where P = difficultyOk])

lemma difficultyOk_callback: "difficultyOk g \<Longrightarrow> difficultyOk (callback l g)"
  by (cases l) (simp_all add: callback_def difficultyOk_updateRender difficultyOk_animatePlayer difficultyOk_animateBullets difficultyOk_animateObjects difficultyOk_checkCollisions difficultyOk_checkPlayerCollisions)

lemma difficultyOk_runFrame: "difficultyOk g \<Longrightarrow> difficultyOk (runFrame g)"
  by (rule runFrame_invariant[where P = difficultyOk]) (simp_all add: difficultyOk_callback difficultyOk_cancelAnimationFrame)

lemma difficultyOk_startGame: "difficultyOk (startGame ks d g)"
  by (simp add: startGame_def startAnimationLoops_def scheduleLoop_upd cancelAllFrames_upd difficultyOk_def spec_obstaclesPerWave_def spec_fallSpeed_def spec_spawnInterval_def)

lemma difficultyOk_gameTimerTick: "difficultyOk g \<Longrightarrow> difficultyOk (gameTimerTick rx rt g)"
  by (cases "gameState g = playing") (simp_all add: difficultyOk_tick_playing, simp add: gameTimerTick_def)

lemma difficultyOk_powerUpTimerTick: "difficultyOk g \<Longrightarrow> difficultyOk (powerUpTimerTick g)"
  by (simp add: powerUpTimerTick_def Let_def)

lemma difficultyOk_fireBullet: "difficultyOk g \<Longrightarrow> difficultyOk (fireBullet now g)"
  by (simp add: fireBullet_def Let_def case_prod_beta difficultyOk_createBullet)

lemma difficultyOk_spawnBlock: "difficultyOk g \<Longrightarrow> difficultyOk (spawnBlock rnd g)"
  by (auto simp: spawnBlock_def difficultyOk_spawnOneBlock intro!: fold_invariant[where P = difficultyOk])

lemma difficultyOk_handleTouchMove: "difficultyOk g \<Longrightarrow> difficultyOk (handleTouchMove nx ny g)"
  by (simp add: handleTouchMove_def)

lemma difficultyOk_hitResetTimeout: "difficultyOk g \<Longrightarrow> difficultyOk (hitResetTimeout g)"
  by (simp add: hitResetTimeout_def)

lemma difficultyOk_effects: "difficultyOk g \<Longrightarrow> difficultyOk (effects g)"
  by (simp add: effects_def Let_def difficultyOk_cancelAllFrames)

lemma difficultyOk_handle: "difficultyOk g \<Longrightarrow> difficultyOk (handle e g)"
  by (cases e) (simp_all add: handle_def difficultyOk_startGame difficultyOk_runFrame difficultyOk_gameTimerTick difficultyOk_powerUpTimerTick difficultyOk_fireBullet difficultyOk_spawnBlock difficultyOk_handleTouchMove difficultyOk_hitResetTimeout)

lemma difficultyOk_step: "difficultyOk g \<Longrightarrow> difficultyOk (step e g)"
  by (simp add: step_def difficultyOk_effects difficultyOk_handle)

lemma difficultyOk_reachable: "reachable g \<Longrightarrow> difficultyOk g"
proof (induction rule: reachable.induct)
  case (reachable_init cw ch)
  show ?case
    by (simp add: difficultyOk_def initialGame_def spec_obstaclesPerWave_def spec_fallSpeed_def
        spec_spawnInterval_def)
next
  case (reachable_step g e)
  from reachable_step.IH show ?case by (rule difficultyOk_step)
qed

lemma gameTime_callback: "gameTime (callback l g) = gameTime g"
proof (cases l)
  case Render
  then show ?thesis by (simp add: callback_def updateRender_def requestAnimationFrame_def Let_def)
next
  case AnimPlayer
  then show ?thesis by (simp add: callback_def animatePlayer_def scheduleLoop_upd Let_def)
next
  case AnimBullets
  then show ?thesis
    by (simp add: callback_def animateBullets_def scheduleLoop_upd recycleBullets_def Let_def
        split: prod.splits)
next
  case AnimObjects
  then show ?thesis by (simp add: callback_def animateObjects_def scheduleLoop_upd Let_def)
next
  case Collisions
  then show ?thesis
    by (simp add: callback_def checkCollisions_def scheduleLoop_upd recycleBullets_def Let_def
        split: prod.splits)
next
  case PlayerCollisions
  have "gameTime (fold (\<lambda>powerUp g'. if playerHitsPowerUp g powerUp
                                         then activatePowerUp (powerUp_type powerUp) g' else g') ps g0)
        = gameTime g0" for ps g0
    by (induction ps arbitrary: g0) (simp_all add: activatePowerUp_def)
  then show ?thesis using PlayerCollisions
    by (simp add: callback_def checkPlayerCollisions_def triggerGameOver_def cancelAllFrames_upd
        scheduleLoop_upd Let_def)
qed

lemma gameTime_runFrame: "gameTime (runFrame g) = gameTime g"
  by (rule runFrame_invariant[where P = "\<lambda>g'. gameTime g' = gameTime g"])
     (simp_all add: gameTime_callback cancelAnimationFrame_def)

lemma gameTime_effects: "gameTime (effects g) = gameTime g"
  by (simp add: effects_def cancelAllFrames_upd Let_def)

lemma gameState_effects: "gameState (effects g) = gameState g"
  by (simp add: effects_def cancelAllFrames_upd Let_def)

lemma gameTime_spawnBlock: "gameTime (spawnBlock rnd g) = gameTime g"
proof -
  have "gameTime (fold (\<lambda>i. spawnOneBlock i (rnd i)) is g0) = gameTime g0" for "is" g0
    by (induction "is" arbitrary: g0) (simp_all add: spawnOneBlock_def Let_def split: prod.splits)
  then show ?thesis by (simp add: spawnBlock_def)
qed

lemma gameTime_step:
  "gameTime (step e g) =
     (case e of StartGame ks dragging \<Rightarrow> 0
      | GameTimer rx rt \<Rightarrow> (if gameState g = playing then gameTime g + 1 else gameTime g)
      | _ \<Rightarrow> gameTime g)"
proof (cases e)
  case (StartGame ks dragging)
  then show ?thesis
    by (simp add: step_def gameTime_effects handle_def startGame_def startAnimationLoops_def
        scheduleLoop_upd cancelAllFrames_upd)
next
  case (GameTimer rx rt)
  then show ?thesis
    by (simp add: step_def gameTime_effects handle_def gameTimerTick_fields(1))
       (simp add: gameTimerTick_def)
next
  case (FiringTimer now)
  then show ?thesis
    by (simp add: step_def gameTime_effects handle_def fireBullet_def createBullet_def Let_def
        split: prod.splits)
qed (simp_all add: step_def gameTime_effects handle_def gameTime_runFrame gameTime_spawnBlock
      powerUpTimerTick_def handleTouchMove_def hitResetTimeout_def Let_def)

lemma gameState_timer_step:
  "gameState (step (GameTimer rx rt) g) = gameState g"
  by (simp add: step_def gameState_effects handle_def gameTimerTick_def spawnPowerUp_def Let_def)

lemma run_timer_ticks:
  "gameState g = playing \<Longrightarrow>
   gameState (run (replicate n (GameTimer rx rt)) g) = playing \<and>
   gameTime (run (replicate n (GameTimer rx rt)) g) = gameTime g + n"
proof (induction n arbitrary: g)
  case 0
  then show ?case by (simp add: run_def)
next
  case (Suc n)
  have p: "gameState (step (GameTimer rx rt) g) = playing"
    using Suc.prems by (simp add: gameState_timer_step)
  have t: "gameTime (step (GameTimer rx rt) g) = gameTime g + 1"
    using Suc.prems by (simp add: gameTime_step)
  show ?case using Suc.IH[OF p] t by (simp add: run_def)
qed

lemma reachable_run: "reachable g \<Longrightarrow> reachable (run es g)"
  unfolding run_def by (induction es arbitrary: g) (auto intro: reachable_step)

lemma exampleStart_reachable: "reachable exampleStart"
  unfolding exampleStart_def by (intro reachable.intros)

lemma exampleStart_time: "gameTime exampleStart = 0"
  by (simp add: exampleStart_def gameTime_step)

lemma exampleAfter_facts:
  "reachable (exampleAfter n)" "gameTime (exampleAfter n) = n" "gameState (exampleAfter n) = playing"
  unfolding exampleAfter_def
  using run_timer_ticks[OF exampleStart_playing, of n "1/2" "1/2"]
  by (simp_all add: reachable_run exampleStart_reachable exampleStart_time)

text \<open>
  Claim C2. In every reachable state the difficulty that the timer has built up step by
  step equals the closed forms at the elapsed seconds \<^verbatim>\<open>gameTime\<close>: blocks per wave
  \<open>min (1 + t div 10) 5\<close>, fall speed \<open>3 + 0.5 * (t div 15)\<close>, spawn interval
  \<open>max (2000 - 300 * (t div 20)) 500\<close>, and \<open>t div 20\<close> power-ups spawned. The elapsed
  seconds are 0 at the start, grow by one with every tick of the game timer while the
  game is played, and change with no other event. At 20 seconds the values are 3, 3.5
  and 1700, and one power-up has been spawned: none before 20 seconds, one by the tick
  from 19 to 20.
\<close>

theorem difficulty_closed_form:
  "(reachable g \<longrightarrow>
      blocksPerWave g = spec_obstaclesPerWave (gameTime g) \<and>
      blockFallSpeed g = spec_fallSpeed (gameTime g) \<and>
      blockSpawnRate g = spec_spawnInterval (gameTime g) \<and>
      powerUpIdRef g = gameTime g div 20) \<and>
   gameTime (step e g) =
     (case e of StartGame ks dragging \<Rightarrow> 0
      | GameTimer rx rt \<Rightarrow> (if gameState g = playing then gameTime g + 1 else gameTime g)
      | _ \<Rightarrow> gameTime g) \<and>
   (reachable g \<and> gameTime g = 20 \<longrightarrow>
      blocksPerWave g = 3 \<and> blockFallSpeed g = 3.5 \<and> blockSpawnRate g = 1700 \<and>
      powerUpIdRef g = 1) \<and>
   (reachable g \<and> gameTime g < 20 \<longrightarrow> powerUpIdRef g = 0) \<and>
   (gameState g = playing \<and> gameTime g = 19 \<longrightarrow>
      length (powerUpsRef (gameTimerTick rx rt g)) = length (powerUpsRef g) + 1)"
proof -
  have a: "blocksPerWave g = spec_obstaclesPerWave (gameTime g) \<and>
      blockFallSpeed g = spec_fallSpeed (gameTime g) \<and>
      blockSpawnRate g = spec_spawnInterval (gameTime g) \<and>
      powerUpIdRef g = gameTime g div 20" if "reachable g"
    using difficultyOk_reachable[OF that] by (simp add: difficultyOk_def)
  have b: "blocksPerWave g = 3 \<and> blockFallSpeed g = 3.5 \<and> blockSpawnRate g = 1700 \<and>
      powerUpIdRef g = 1" if "reachable g" "gameTime g = 20"
    using a[OF that(1)] that(2)
    by (simp add: spec_obstaclesPerWave_def spec_fallSpeed_def spec_spawnInterval_def)
  have c: "powerUpIdRef g = 0" if "reachable g" "gameTime g < 20"
    using a[OF that(1)] that(2) by simp
  have d: "length (powerUpsRef (gameTimerTick rx rt g)) = length (powerUpsRef g) + 1"
    if "gameState g = playing" "gameTime g = 19"
    using that by (simp add: gameTimerTick_def spawnPowerUp_def Let_def)
  show ?thesis using a b c d gameTime_step[of e g] by blast
qed

theorem difficulty_closed_form_witness:
  "reachable (exampleAfter 20) \<and> gameTime (exampleAfter 20) = 20 \<and>
   blocksPerWave (exampleAfter 20) = 3 \<and> blockFallSpeed (exampleAfter 20) = 3.5 \<and>
   blockSpawnRate (exampleAfter 20) = 1700 \<and> powerUpIdRef (exampleAfter 20) = 1 \<and>
   reachable (exampleAfter 19) \<and> gameTime (exampleAfter 19) < 20 \<and>
   powerUpIdRef (exampleAfter 19) = 0 \<and>
   gameState (exampleAfter 19) = playing \<and> gameTime (exampleAfter 19) = 19 \<and>
   length (powerUpsRef (gameTimerTick (1/2) (1/2) (exampleAfter 19))) =
     length (powerUpsRef (exampleAfter 19)) + 1"
  using difficulty_closed_form[of "exampleAfter 20" Frame]
    difficulty_closed_form[of "exampleAfter 19" Frame "1/2" "1/2"]
    exampleAfter_facts[of 20] exampleAfter_facts[of 19]
  by simp

lemma spec_difficulty_mono:
  assumes "t1 \<le> t2"
  shows "spec_fallSpeed t1 \<le> spec_fallSpeed t2"
    and "spec_obstaclesPerWave t1 \<le> spec_obstaclesPerWave t2"
    and "spec_spawnInterval t2 \<le> spec_spawnInterval t1"
proof -
  have d: "t1 div k \<le> t2 div k" for k using assms by (rule div_le_mono)
  show "spec_fallSpeed t1 \<le> spec_fallSpeed t2"
    using d[of 15] by (simp add: spec_fallSpeed_def)
  show "spec_obstaclesPerWave t1 \<le> spec_obstaclesPerWave t2"
    using d[of 10] by (simp add: spec_obstaclesPerWave_def)
  show "spec_spawnInterval t2 \<le> spec_spawnInterval t1"
    using d[of 20] by (simp add: spec_spawnInterval_def)
qed

lemma gameTime_run_mono:
  "\<forall>e \<in> set es. \<not> isStart e \<Longrightarrow> gameTime g \<le> gameTime (run es g)"
proof (induction es arbitrary: g)
  case Nil
  then show ?case by (simp add: run_def)
next
  case (Cons e es)
  have "gameTime g \<le> gameTime (step e g)"
    using Cons.prems by (cases e) (simp_all add: gameTime_step isStart_def)
  moreover have "gameTime (step e g) \<le> gameTime (run es (step e g))"
    using Cons by simp
  ultimately show ?case by (simp add: run_def)
qed

text \<open>
  Claim C7. Of two reachable states, the one with more elapsed seconds has a fall speed
  at least as high, at least as many blocks per wave, and a spawn interval at most as
  long; blocks per wave never exceed 5 and the spawn interval never falls below 500.
  Within a session (a run without a new start) the elapsed seconds never decrease.
\<close>

theorem difficulty_monotone:
  assumes "reachable g1" and "reachable g2" and "gameTime g1 < gameTime g2"
  shows "blockFallSpeed g1 \<le> blockFallSpeed g2 \<and>
         blocksPerWave g1 \<le> blocksPerWave g2 \<and>
         blocksPerWave g1 \<le> 5 \<and> blocksPerWave g2 \<le> 5 \<and>
         blockSpawnRate g2 \<le> blockSpawnRate g1 \<and>
         500 \<le> blockSpawnRate g1 \<and> 500 \<le> blockSpawnRate g2 \<and>
         ((\<forall>e \<in> set es. \<not> isStart e) \<longrightarrow> gameTime g1 \<le> gameTime (run es g1))"
proof -
  have le: "gameTime g1 \<le> gameTime g2" using assms(3) by simp
  have o1: "difficultyOk g1" and o2: "difficultyOk g2"
    using assms(1,2) by (simp_all add: difficultyOk_reachable)
  have "blockFallSpeed g1 \<le> blockFallSpeed g2"
    using o1 o2 spec_difficulty_mono(1)[OF le] by (simp add: difficultyOk_def)
  moreover have "blocksPerWave g1 \<le> blocksPerWave g2"
    using o1 o2 spec_difficulty_mono(2)[OF le] by (simp add: difficultyOk_def)
  moreover have "blockSpawnRate g2 \<le> blockSpawnRate g1"
    using o1 o2 spec_difficulty_mono(3)[OF le] by (simp add: difficultyOk_def)
  moreover have "blocksPerWave g1 \<le> 5" "blocksPerWave g2 \<le> 5"
    "500 \<le> blockSpawnRate g1" "500 \<le> blockSpawnRate g2"
    using o1 o2 by (simp_all add: difficultyOk_def spec_obstaclesPerWave_def spec_spawnInterval_def)
  ultimately show ?thesis using gameTime_run_mono[of es g1] by blast
qed

theorem difficulty_monotone_witness:
  "reachable exampleStart \<and> reachable (exampleAfter 20) \<and>
   gameTime exampleStart < gameTime (exampleAfter 20) \<and>
   blockFallSpeed exampleStart \<le> blockFallSpeed (exampleAfter 20) \<and>
   blocksPerWave exampleStart \<le> blocksPerWave (exampleAfter 20) \<and>
   blocksPerWave (exampleAfter 20) \<le> 5 \<and>
   blockSpawnRate (exampleAfter 20) \<le> blockSpawnRate exampleStart \<and>
   500 \<le> blockSpawnRate (exampleAfter 20) \<and>
   gameTime exampleStart \<le> gameTime (run [Frame, PowerUpTimer] exampleStart)"
proof -
  have lt: "gameTime exampleStart < gameTime (exampleAfter 20)"
    by (simp add: exampleStart_time exampleAfter_facts)
  have ns: "\<forall>e \<in> set [Frame, PowerUpTimer]. \<not> isStart e"
    by (simp add: isStart_def)
  show ?thesis
    using difficulty_monotone[OF exampleStart_reachable exampleAfter_facts(1) lt,
        of "[Frame, PowerUpTimer]"] ns lt exampleStart_reachable exampleAfter_facts(1)
    by simp
qed

subsection \<open>Bullets, the pool and the collision pass\<close>

lemma poolOkWith_ignores [simp]:
  "poolOkWith ps (g\<lparr>gameState := v1\<rparr>) = poolOkWith ps g "
  "poolOkWith ps (g\<lparr>gameTime := v2\<rparr>) = poolOkWith ps g "
  "poolOkWith ps (g\<lparr>blockSpawnRate := v3\<rparr>) = poolOkWith ps g "
  "poolOkWith ps (g\<lparr>blockFallSpeed := v4\<rparr>) = poolOkWith ps g "
  "poolOkWith ps (g\<lparr>blocksPerWave := v5\<rparr>) = poolOkWith ps g "
  "poolOkWith ps (g\<lparr>activePowerUps := v6\<rparr>) = poolOkWith ps g "
  "poolOkWith ps (g\<lparr>powerUpTimeLeft := v7\<rparr>) = poolOkWith ps g "
  "poolOkWith ps (g\<lparr>position_x := v8\<rparr>) = poolOkWith ps g "
  "poolOkWith ps (g\<lparr>position_y := v9\<rparr>) = poolOkWith ps g "
  "poolOkWith ps (g\<lparr>keys := v10\<rparr>) = poolOkWith ps g "
  "poolOkWith ps (g\<lparr>isDragging := v11\<rparr>) = poolOkWith ps g "
  "poolOkWith ps (g\<lparr>blocksRef := v12\<rparr>) = poolOkWith ps g "
  "poolOkWith ps (g\<lparr>powerUpsRef := v13\<rparr>) = poolOkWith ps g "
  "poolOkWith ps (g\<lparr>blockIdRef := v14\<rparr>) = poolOkWith ps g "
  "poolOkWith ps (g\<lparr>powerUpIdRef := v15\<rparr>) = poolOkWith ps g "
  "poolOkWith ps (g\<lparr>scoreRef := v16\<rparr>) = poolOkWith ps g "
  "poolOkWith ps (g\<lparr>score := v17\<rparr>) = poolOkWith ps g "
  "poolOkWith ps (g\<lparr>finalScoreRef := v18\<rparr>) = poolOkWith ps g "
  "poolOkWith ps (g\<lparr>needsRenderRef := v19\<rparr>) = poolOkWith ps g "
  "poolOkWith ps (g\<lparr>lastFireTimeRef := v20\<rparr>) = poolOkWith ps g "
  "poolOkWith ps (g\<lparr>rafCallbacks := v21\<rparr>) = poolOkWith ps g "
  "poolOkWith ps (g\<lparr>rafNextHandle := v22\<rparr>) = poolOkWith ps g "
  "poolOkWith ps (g\<lparr>animationFrameIds := v23\<rparr>) = poolOkWith ps g "
  "poolOkWith ps (g\<lparr>containerWidth := v24\<rparr>) = poolOkWith ps g "
  "poolOkWith ps (g\<lparr>containerHeight := v25\<rparr>) = poolOkWith ps g "
  "poolOkWith ps (g\<lparr>hitResetPending := v26\<rparr>) = poolOkWith ps g "
  by (simp_all add: poolOkWith_def)

lemma poolOk_ignores [simp]:
  "poolOk (g\<lparr>gameState := v1\<rparr>) = poolOk g "
  "poolOk (g\<lparr>gameTime := v2\<rparr>) = poolOk g "
  "poolOk (g\<lparr>blockSpawnRate := v3\<rparr>) = poolOk g "
  "poolOk (g\<lparr>blockFallSpeed := v4\<rparr>) = poolOk g "
  "poolOk (g\<lparr>blocksPerWave := v5\<rparr>) = poolOk g "
  "poolOk (g\<lparr>activePowerUps := v6\<rparr>) = poolOk g "
  "poolOk (g\<lparr>powerUpTimeLeft := v7\<rparr>) = poolOk g "
  "poolOk (g\<lparr>position_x := v8\<rparr>) = poolOk g "
  "poolOk (g\<lparr>position_y := v9\<rparr>) = poolOk g "
  "poolOk (g\<lparr>keys := v10\<rparr>) = poolOk g "
  "poolOk (g\<lparr>isDragging := v11\<rparr>) = poolOk g "
  "poolOk (g\<lparr>blocksRef := v12\<rparr>) = poolOk g "
  "poolOk (g\<lparr>powerUpsRef := v13\<rparr>) = poolOk g "
  "poolOk (g\<lparr>blockIdRef := v14\<rparr>) = poolOk g "
  "poolOk (g\<lparr>powerUpIdRef := v15\<rparr>) = poolOk g "
  "poolOk (g\<lparr>scoreRef := v16\<rparr>) = poolOk g "
  "poolOk (g\<lparr>score := v17\<rparr>) = poolOk g "
  "poolOk (g\<lparr>finalScoreRef := v18\<rparr>) = poolOk g "
  "poolOk (g\<lparr>needsRenderRef := v19\<rparr>) = poolOk g "
  "poolOk (g\<lparr>lastFireTimeRef := v20\<rparr>) = poolOk g "
  "poolOk (g\<lparr>rafCallbacks := v21\<rparr>) = poolOk g "
  "poolOk (g\<lparr>rafNextHandle := v22\<rparr>) = poolOk g "
  "poolOk (g\<lparr>animationFrameIds := v23\<rparr>) = poolOk g "
  "poolOk (g\<lparr>containerWidth := v24\<rparr>) = poolOk g "
  "poolOk (g\<lparr>containerHeight := v25\<rparr>) = poolOk g "
  "poolOk (g\<lparr>hitResetPending := v26\<rparr>) = poolOk g "
  by (simp_all add: poolOk_def)


lemma nat_int_diff: "nat (int a - int b) = a - b"
  by simp

lemma recycleBullets_upd:
  "recycleBullets r g =
   g\<lparr>bulletPoolRef := bulletPoolRef g @ take (MAX_BULLETS - length (bulletPoolRef g)) r\<rparr>"
  by (simp add: recycleBullets_def Let_def nat_int_diff)

lemma recycleBullets_Nil: "recycleBullets [] g = g"
  by (simp add: recycleBullets_upd)

lemma recycle_if_nonempty:
  "(if length r > 0 then recycleBullets r g else g) = recycleBullets r g"
  by (cases r) (simp_all add: recycleBullets_Nil)

lemma partitionBullets_filter:
  "partitionBullets bs =
     (filter (\<lambda>b. bullet_y b > - 20) (map moveBullet bs),
      filter (\<lambda>b. \<not> bullet_y b > - 20) (map moveBullet bs))"
  by (induction bs) (simp_all add: Let_def)

lemma moveBullet_id [simp]: "bullet_id (moveBullet b) = bullet_id b"
  by (simp add: moveBullet_def Let_def)

lemma distinct_three:
  fixes K R T L Po :: "nat list"
  assumes "distinct (K @ R)" "set (K @ R) \<subseteq> set L" "distinct L" "distinct Po"
    "set L \<inter> set Po = {}" "set T \<subseteq> set R" "distinct T"
  shows "distinct (K @ Po @ T)"
  using assms by (simp add: disjoint_iff subset_iff) blast

text \<open>Replacing the live bullets by some of them and releasing others of them.\<close>

lemma poolOk_release:
  assumes ok: "poolOk g"
    and d: "distinct (map bullet_id (kept @ recycled))"
    and s: "set (map bullet_id (kept @ recycled)) \<subseteq> set (map bullet_id (bulletsRef g))"
  shows "poolOk (recycleBullets recycled (g\<lparr>bulletsRef := kept\<rparr>))"
proof -
  let ?pool = "bulletPoolRef g"
  let ?n = "MAX_BULLETS - length ?pool"
  let ?t = "take ?n recycled"
  have dl: "distinct (map bullet_id (bulletsRef g))" "distinct (map bullet_id ?pool)"
    and disj: "set (map bullet_id (bulletsRef g)) \<inter> set (map bullet_id ?pool) = {}"
    and lt: "\<forall>b \<in> set (bulletsRef g) \<union> set ?pool. bullet_id b < bulletIdRef g"
    and len: "length ?pool \<le> MAX_BULLETS"
    using ok by (auto simp: poolOk_def poolOkWith_def list_all_iff)
  have tsub: "set ?t \<subseteq> set recycled" by (rule set_take_subset)
  have tsub': "set (map bullet_id ?t) \<subseteq> set (map bullet_id recycled)"
    using tsub by auto
  have dt: "distinct (map bullet_id ?t)"
    using d by (simp add: take_map[symmetric] distinct_take)
  have "distinct (map bullet_id kept @ map bullet_id ?pool @ map bullet_id ?t)"
    by (rule distinct_three[where R = "map bullet_id recycled" and L = "map bullet_id (bulletsRef g)"])
       (use d s dl disj tsub' dt in simp_all)
  then have 1: "distinct (map bullet_id (kept @ ?pool @ ?t))" by simp
  have 2: "\<forall>b \<in> set (kept @ ?pool @ ?t). bullet_id b < bulletIdRef g"
  proof
    fix b assume "b \<in> set (kept @ ?pool @ ?t)"
    then consider "b \<in> set kept \<union> set recycled" | "b \<in> set ?pool" using tsub by auto
    then show "bullet_id b < bulletIdRef g"
    proof cases
      case 1
      then have "bullet_id b \<in> set (map bullet_id (bulletsRef g))" using s by auto
      then show ?thesis using lt by auto
    next
      case 2
      then show ?thesis using lt by auto
    qed
  qed
  have 3: "length (?pool @ ?t) \<le> MAX_BULLETS" using len by simp
  show ?thesis
    unfolding recycleBullets_upd poolOk_def poolOkWith_def
    using 1 2 3 by (simp add: list_all_iff)
qed

lemma distinct_map_partition:
  assumes "distinct (map f xs)"
  shows "distinct (map f (filter P xs @ filter (\<lambda>x. \<not> P x) xs))"
proof -
  have i: "inj_on f (set xs)" and dx: "distinct xs"
    using assms by (simp_all add: distinct_map)
  have "distinct (filter P xs @ filter (\<lambda>x. \<not> P x) xs)"
    using dx by auto
  moreover have "inj_on f (set (filter P xs @ filter (\<lambda>x. \<not> P x) xs))"
    by (rule inj_on_subset[OF i]) auto
  ultimately show ?thesis by (simp only: distinct_map) 
qed

lemma poolOk_animateBullets: "poolOk g \<Longrightarrow> poolOk (animateBullets g)"
proof (cases "gameState g = playing")
  case False
  assume "poolOk g"
  with False show ?thesis by (simp add: animateBullets_def)
next
  case True
  assume ok: "poolOk g"
  let ?ms = "map moveBullet (bulletsRef g)"
  let ?k = "filter (\<lambda>b. bullet_y b > - 20) ?ms"
  let ?r = "filter (\<lambda>b. \<not> bullet_y b > - 20) ?ms"
  have dm: "distinct (map bullet_id ?ms)"
    using ok by (simp add: poolOk_def poolOkWith_def o_def)
  have d: "distinct (map bullet_id (?k @ ?r))"
    using dm by (rule distinct_map_partition)
  have s: "set (map bullet_id (?k @ ?r)) \<subseteq> set (map bullet_id (bulletsRef g))"
    by auto
  have rel: "poolOk (recycleBullets ?r (g\<lparr>bulletsRef := ?k\<rparr>))"
    using ok d s by (rule poolOk_release)
  show ?thesis
    using True rel
    unfolding animateBullets_def partitionBullets_filter Let_def prod.case recycle_if_nonempty
    by (simp add: scheduleLoop_upd)
qed

lemma hitBlock_spec: "hitBlock block = spec_hit block"
  by (simp add: hitBlock_def spec_hit_def)

lemma spec_hit_geom [simp]: "bulletHitsBlock b (spec_hit block) = bulletHitsBlock b block"
  by (simp add: bulletHitsBlock_def spec_hit_def)

lemma firstOverlap_Nil [simp]: "firstOverlap b [] = None"
  by (simp add: firstOverlap_def hitsAny_def)

lemma firstOverlap_Cons:
  "firstOverlap b (block # rest) =
     (if bulletHitsBlock b block then Some 0 else map_option Suc (firstOverlap b rest))"
  by (simp add: firstOverlap_def hitsAny_def)

lemma firstOverlap_None: "firstOverlap b blocks = None \<longleftrightarrow> \<not> hitsAny b blocks"
  by (simp add: firstOverlap_def)

lemma firstOverlap_less: "firstOverlap b blocks = Some j \<Longrightarrow> j < length blocks"
  by (induction blocks arbitrary: j) (auto simp: firstOverlap_Cons split: if_splits)



lemma scanBlocks_spec:
  "scanBlocks b blocks =
     (case firstOverlap b blocks of
        None \<Rightarrow> (blocks, False, 0)
      | Some j \<Rightarrow> (blocks[j := spec_hit (blocks ! j)], True,
                   (if block_isBreakable (blocks ! j) then 1 else 0)))"
  by (induction blocks) (auto simp: firstOverlap_Cons hitBlock_spec split: option.splits)

lemma hits_update:
  "j < length blocks \<Longrightarrow>
   map (bulletHitsBlock b) (blocks[j := spec_hit (blocks ! j)]) = map (bulletHitsBlock b) blocks"
  by (simp add: map_update list_update_same_conv)

lemma hitsAny_map: "hitsAny b blocks = (True \<in> set (map (bulletHitsBlock b) blocks))"
  by (auto simp: hitsAny_def list_ex_iff)

lemma hitsAny_update:
  "j < length blocks \<Longrightarrow> hitsAny b (blocks[j := spec_hit (blocks ! j)]) = hitsAny b blocks"
  by (simp only: hitsAny_map hits_update)

lemma scanBullets_spec:
  "scanBullets bs blocks sc recycled hit =
     (fst (fold spec_resolve bs (blocks, sc)), snd (fold spec_resolve bs (blocks, sc)),
      recycled @ filter (\<lambda>b. hitsAny b blocks) bs,
      hit \<or> list_ex (\<lambda>b. hitsAny b blocks) bs)"
proof (induction bs arbitrary: blocks sc recycled hit)
  case Nil
  then show ?case by simp
next
  case (Cons b bs)
  show ?case
  proof (cases "firstOverlap b blocks")
    case None
    then have "\<not> hitsAny b blocks" by (simp add: firstOverlap_None)
    with None show ?thesis
      by (simp add: scanBlocks_spec spec_resolve_def Cons.IH)
  next
    case (Some j)
    then have h: "hitsAny b blocks" using firstOverlap_None[of b blocks] by simp
    have j: "j < length blocks" using Some by (rule firstOverlap_less)
    have u: "hitsAny b' (blocks[j := spec_hit (blocks ! j)]) = hitsAny b' blocks" for b'
      using j by (rule hitsAny_update)
    show ?thesis
      using Some h by (simp add: scanBlocks_spec spec_resolve_def Cons.IH u)
  qed
qed

lemma list_ex_filter: "list_ex P xs \<longleftrightarrow> filter P xs \<noteq> []"
  by (induction xs) auto

lemma scanBullets_result:
  "scanBullets bs blocks sc [] False =
     (fst (fold spec_resolve bs (blocks, sc)), snd (fold spec_resolve bs (blocks, sc)),
      filter (\<lambda>b. hitsAny b blocks) bs,
      filter (\<lambda>b. hitsAny b blocks) bs \<noteq> [])"
  by (simp add: scanBullets_spec list_ex_filter)

lemma checkCollisions_fields:
  assumes "gameState g = playing" "bulletsRef g \<noteq> []" "blocksRef g \<noteq> []"
  shows "bulletsRef (checkCollisions g) =
           filter (\<lambda>bullet. \<not> list_ex (\<lambda>b. bullet_id b = bullet_id bullet)
                                 (filter (\<lambda>b. hitsAny b (blocksRef g)) (bulletsRef g)))
             (bulletsRef g)"
    and "bulletPoolRef (checkCollisions g) =
           bulletPoolRef g @ take (MAX_BULLETS - length (bulletPoolRef g))
                               (filter (\<lambda>b. hitsAny b (blocksRef g)) (bulletsRef g))"
    and "scoreRef (checkCollisions g) =
           snd (fold spec_resolve (bulletsRef g) (blocksRef g, scoreRef g))"
    and "blocksRef (checkCollisions g) =
           (if filter (\<lambda>b. hitsAny b (blocksRef g)) (bulletsRef g) = []
            then fst (fold spec_resolve (bulletsRef g) (blocksRef g, scoreRef g))
            else filter (\<lambda>block. \<not> block_isBreakable block \<or> block_hp block > 0)
                   (fst (fold spec_resolve (bulletsRef g) (blocksRef g, scoreRef g))))"
    and "bulletIdRef (checkCollisions g) = bulletIdRef g"
  using assms
  by (simp_all add: checkCollisions_def scanBullets_result Let_def scheduleLoop_upd recycleBullets_upd)

lemma poolOk_cong:
  "bulletsRef g = bulletsRef g' \<Longrightarrow> bulletPoolRef g = bulletPoolRef g' \<Longrightarrow>
   bulletIdRef g = bulletIdRef g' \<Longrightarrow> poolOk g = poolOk g'"
  by (simp add: poolOk_def poolOkWith_def)

lemma poolOk_checkCollisions: "poolOk g \<Longrightarrow> poolOk (checkCollisions g)"
proof -
  assume ok: "poolOk g"
  consider "gameState g \<noteq> playing" | "gameState g = playing" "bulletsRef g = [] \<or> blocksRef g = []"
    | "gameState g = playing" "bulletsRef g \<noteq> []" "blocksRef g \<noteq> []" by blast
  then show ?thesis
  proof cases
    case 1
    then show ?thesis using ok by (simp add: checkCollisions_def)
  next
    case 2
    then show ?thesis using ok by (auto simp: checkCollisions_def scheduleLoop_upd)
  next
    case 3
    let ?hit = "filter (\<lambda>b. hitsAny b (blocksRef g)) (bulletsRef g)"
    let ?kept = "filter (\<lambda>bullet. \<not> list_ex (\<lambda>b. bullet_id b = bullet_id bullet) ?hit) (bulletsRef g)"
    have dl: "distinct (map bullet_id (bulletsRef g))"
      using ok by (simp add: poolOk_def poolOkWith_def)
    have "distinct (map bullet_id ?kept)" "distinct (map bullet_id ?hit)"
      using dl by (simp_all add: distinct_map_filter)
    moreover have "set (map bullet_id ?kept) \<inter> set (map bullet_id ?hit) = {}"
      by (auto simp: list_ex_iff)
    ultimately have d: "distinct (map bullet_id (?kept @ ?hit))" by simp
    have s: "set (map bullet_id (?kept @ ?hit)) \<subseteq> set (map bullet_id (bulletsRef g))"
      by auto
    have "poolOk (recycleBullets ?hit (g\<lparr>bulletsRef := ?kept\<rparr>))"
      using ok d s by (rule poolOk_release)
    moreover have "poolOk (checkCollisions g) = poolOk (recycleBullets ?hit (g\<lparr>bulletsRef := ?kept\<rparr>))"
      by (rule poolOk_cong) (simp_all add: checkCollisions_fields[OF 3] recycleBullets_upd)
    ultimately show ?thesis by simp
  qed
qed

lemma poolOkWith_createBullet:
  assumes "poolOkWith ps g" "createBullet x y a g = (b, g')"
  shows "poolOkWith (ps @ [b]) g'"
proof (cases "bulletPoolRef g = []")
  case True
  then have b: "b = \<lparr>bullet_id = bulletIdRef g, bullet_x = x, bullet_y = y, bullet_angle = Some a\<rparr>"
    and g': "g' = g\<lparr>bulletIdRef := bulletIdRef g + 1\<rparr>"
    using assms(2) by (auto simp: createBullet_def)
  show ?thesis
    using assms(1) True unfolding b g' poolOkWith_def
    by (auto simp: list_all_iff less_Suc_eq)
next
  case False
  then obtain pool l where p: "bulletPoolRef g = pool @ [l]"
    by (meson rev_exhaust)
  have b: "b = l\<lparr>bullet_x := x, bullet_y := y, bullet_angle := Some a\<rparr>"
    and g': "g' = g\<lparr>bulletPoolRef := pool\<rparr>"
    using assms(2) p by (auto simp: createBullet_def)
  show ?thesis
    using assms(1) unfolding b g' poolOkWith_def p
    by (auto simp: list_all_iff)
qed

lemma poolOkWith_push:
  "poolOkWith ps g \<Longrightarrow> poolOk (g\<lparr>bulletsRef := bulletsRef g @ ps\<rparr>)"
  by (auto simp: poolOk_def poolOkWith_def list_all_iff)

lemma poolOk_fireBullet: "poolOk g \<Longrightarrow> poolOk (fireBullet now g)"
proof -
  assume ok: "poolOk g"
  let ?g0 = "g\<lparr>lastFireTimeRef := now\<rparr>"
  have ok0: "poolOkWith [] ?g0" using ok by (simp add: poolOk_def)
  have cb: "poolOkWith (ps @ [fst (createBullet x y a h)]) (snd (createBullet x y a h))"
    if "poolOkWith ps h" for ps x y a h
    using poolOkWith_createBullet[OF that, of x y a] by (cases "createBullet x y a h") simp
  have one: "poolOk ((snd (createBullet x y a ?g0))
               \<lparr>bulletsRef := bulletsRef (snd (createBullet x y a ?g0)) @ [fst (createBullet x y a ?g0)]\<rparr>)"
    for x y a
    using poolOkWith_push[OF cb[OF ok0, of x y a]] by simp
  have three: "poolOk (g3\<lparr>bulletsRef := bulletsRef g3 @ [b1, b2, b3]\<rparr>)"
    if "c1 = createBullet x y a ?g0" "c2 = createBullet x2 y2 a2 (snd c1)"
       "c3 = createBullet x3 y3 a3 (snd c2)" "b1 = fst c1" "b2 = fst c2" "b3 = fst c3" "g3 = snd c3"
    for x y a x2 y2 a2 x3 y3 a3 c1 c2 c3 b1 b2 b3 g3
    using poolOkWith_push[OF cb[OF cb[OF cb[OF ok0, of x y a], of x2 y2 a2], of x3 y3 a3]]
    unfolding that by simp
  show ?thesis
  proof (cases "gameState g = playing \<and> \<not> now - lastFireTimeRef g < (if activePowerUps g fireSpeed then 100 else 200)")
    case False
    then show ?thesis using ok by (auto simp: fireBullet_def Let_def)
  next
    case True
    show ?thesis
    proof (cases "activePowerUps g multiDirectional")
      case m: True
      show ?thesis
        using True m three[OF refl refl refl refl refl refl refl]
        by (simp add: fireBullet_def Let_def case_prod_beta)
    next
      case m: False
      show ?thesis
        using True m one
        by (simp add: fireBullet_def Let_def case_prod_beta)
    qed
  qed
qed

lemma poolOk_startGame: "poolOk (startGame ks d g)"
  by (simp add: startGame_def startAnimationLoops_def scheduleLoop_upd cancelAllFrames_upd)
     (simp add: poolOk_def poolOkWith_def)

lemma poolOk_cancelAnimationFrame: "poolOk (cancelAnimationFrame h g) = poolOk g"
  by (simp add: cancelAnimationFrame_def)

lemma poolOk_cancelAllFrames: "poolOk (cancelAllFrames g) = poolOk g"
  by (simp add: cancelAllFrames_upd)

lemma poolOk_scheduleLoop: "poolOk (scheduleLoop l g) = poolOk g"
  by (simp add: scheduleLoop_upd)

lemma poolOk_activatePowerUp: "poolOk (activatePowerUp u g) = poolOk g"
  by (simp add: activatePowerUp_def)

lemma poolOk_spawnPowerUp: "poolOk (spawnPowerUp rx rt g) = poolOk g"
  by (simp add: spawnPowerUp_def Let_def)

lemma poolOk_spawnOneBlock: "poolOk (spawnOneBlock i r g) = poolOk g"
  by (simp add: spawnOneBlock_def Let_def split: prod.splits)

lemma poolOk_updateRender: "poolOk g \<Longrightarrow> poolOk (updateRender g)"
  by (simp add: updateRender_def requestAnimationFrame_def Let_def)

lemma poolOk_animatePlayer: "poolOk g \<Longrightarrow> poolOk (animatePlayer g)"
  by (simp add: animatePlayer_def Let_def poolOk_scheduleLoop)

lemma poolOk_animateObjects: "poolOk g \<Longrightarrow> poolOk (animateObjects g)"
  by (simp add: animateObjects_def Let_def poolOk_scheduleLoop)

lemma poolOk_checkPlayerCollisions: "poolOk g \<Longrightarrow> poolOk (checkPlayerCollisions g)"
  by (auto simp: checkPlayerCollisions_def triggerGameOver_def Let_def poolOk_scheduleLoop poolOk_cancelAllFrames poolOk_activatePowerUp intro!: fold_invariant[where P = poolOk])

lemma poolOk_callback: "poolOk g \<Longrightarrow> poolOk (callback l g)"
  by (cases l) (simp_all add: callback_def poolOk_updateRender poolOk_animatePlayer poolOk_animateBullets poolOk_animateObjects poolOk_checkCollisions poolOk_checkPlayerCollisions)

lemma poolOk_runFrame: "poolOk g \<Longrightarrow> poolOk (runFrame g)"
  by (rule runFrame_invariant[where P = poolOk]) (simp_all add: poolOk_callback poolOk_cancelAnimationFrame)

lemma poolOk_gameTimerTick: "poolOk g \<Longrightarrow> poolOk (gameTimerTick rx rt g)"
  by (simp add: gameTimerTick_def Let_def poolOk_spawnPowerUp)

lemma poolOk_powerUpTimerTick: "poolOk g \<Longrightarrow> poolOk (powerUpTimerTick g)"
  by (simp add: powerUpTimerTick_def Let_def)

lemma poolOk_spawnBlock: "poolOk g \<Longrightarrow> poolOk (spawnBlock rnd g)"
  by (auto simp: spawnBlock_def poolOk_spawnOneBlock intro!: fold_invariant[where P = poolOk])

lemma poolOk_handleTouchMove: "poolOk g \<Longrightarrow> poolOk (handleTouchMove nx ny g)"
  by (simp add: handleTouchMove_def)

lemma poolOk_hitResetTimeout: "poolOk g \<Longrightarrow> poolOk (hitResetTimeout g)"
  by (simp add: hitResetTimeout_def)

lemma poolOk_effects: "poolOk g \<Longrightarrow> poolOk (effects g)"
  by (simp add: effects_def Let_def poolOk_cancelAllFrames)

lemma poolOk_handle: "poolOk g \<Longrightarrow> poolOk (handle e g)"
  by (cases e) (simp_all add: handle_def poolOk_startGame poolOk_runFrame poolOk_gameTimerTick poolOk_powerUpTimerTick poolOk_fireBullet poolOk_spawnBlock poolOk_handleTouchMove poolOk_hitResetTimeout)

lemma poolOk_step: "poolOk g \<Longrightarrow> poolOk (step e g)"
  by (simp add: step_def poolOk_effects poolOk_handle)

lemma poolOk_reachable: "reachable g \<Longrightarrow> poolOk g"
proof (induction rule: reachable.induct)
  case (reachable_init cw ch)
  show ?case by (simp add: poolOk_def poolOkWith_def initialGame_def)
next
  case (reachable_step g e)
  from reachable_step.IH show ?case by (rule poolOk_step)
qed

lemma acquireAll_reuse:
  "length args \<le> length (bulletPoolRef g) \<Longrightarrow>
   bulletIdRef (snd (acquireAll args g)) = bulletIdRef g \<and>
   set (map bullet_id (fst (acquireAll args g))) \<subseteq> set (map bullet_id (bulletPoolRef g)) \<and>
   length (fst (acquireAll args g)) = length args"
proof (induction args arbitrary: g)
  case Nil
  then show ?case by simp
next
  case (Cons t args)
  obtain x y a where t: "t = (x, y, a)" by (cases t)
  obtain pool l where p: "bulletPoolRef g = pool @ [l]"
    using Cons.prems by (cases "bulletPoolRef g" rule: rev_cases) auto
  let ?g' = "g\<lparr>bulletPoolRef := pool\<rparr>"
  have c: "createBullet x y a g = (l\<lparr>bullet_x := x, bullet_y := y, bullet_angle := Some a\<rparr>, ?g')"
    by (simp add: createBullet_def p)
  have "length args \<le> length (bulletPoolRef ?g')" using Cons.prems p by simp
  from Cons.IH[OF this] show ?case
    by (auto simp: t c p split: prod.splits) blast
qed

text \<open>
  Claim C4. With a non-empty pool \<^verbatim>\<open>createBullet\<close> returns the last pooled bullet
  with its position and angle overwritten, removes it from the pool and leaves the
  identifier counter as it is; with an empty pool it returns a new bullet whose
  identifier is the counter, which it increments, and in a reachable state that
  identifier belongs to no live or pooled bullet. The release appends the released
  bullets up to the capacity 100 and drops the rest, so a pool of at most 100 holds
  \<open>min 100 (length pool + length r)\<close> afterwards, and every reachable state has at most
  100 pooled bullets. After the release of \<open>N \<le> 100\<close> bullets, \<open>N\<close> acquisitions leave the
  counter unchanged and return pooled identifiers only.
\<close>

theorem bullet_pool_contract:
  "(bulletPoolRef g \<noteq> [] \<longrightarrow>
      createBullet x y a g =
        (last (bulletPoolRef g)\<lparr>bullet_x := x, bullet_y := y, bullet_angle := Some a\<rparr>,
         g\<lparr>bulletPoolRef := butlast (bulletPoolRef g)\<rparr>)) \<and>
   (bulletPoolRef g = [] \<longrightarrow>
      createBullet x y a g =
        (\<lparr>bullet_id = bulletIdRef g, bullet_x = x, bullet_y = y, bullet_angle = Some a\<rparr>,
         g\<lparr>bulletIdRef := bulletIdRef g + 1\<rparr>)) \<and>
   (reachable g \<longrightarrow>
      bulletIdRef g \<notin> set (map bullet_id (bulletsRef g @ bulletPoolRef g)) \<and>
      length (bulletPoolRef g) \<le> 100) \<and>
   bulletPoolRef (recycleBullets r g) =
     bulletPoolRef g @ take (100 - length (bulletPoolRef g)) r \<and>
   (length (bulletPoolRef g) \<le> 100 \<longrightarrow>
      length (bulletPoolRef (recycleBullets r g)) = min 100 (length (bulletPoolRef g) + length r)) \<and>
   (length (bulletPoolRef g) \<le> 100 \<and> length r \<le> 100 \<and> length args = length r \<longrightarrow>
      bulletIdRef (snd (acquireAll args (recycleBullets r g))) = bulletIdRef g \<and>
      set (map bullet_id (fst (acquireAll args (recycleBullets r g))))
        \<subseteq> set (map bullet_id (bulletPoolRef (recycleBullets r g))))"
proof -
  have 1: "createBullet x y a g =
        (last (bulletPoolRef g)\<lparr>bullet_x := x, bullet_y := y, bullet_angle := Some a\<rparr>,
         g\<lparr>bulletPoolRef := butlast (bulletPoolRef g)\<rparr>)" if "bulletPoolRef g \<noteq> []"
    using that by (simp add: createBullet_def)
  have 2: "createBullet x y a g =
        (\<lparr>bullet_id = bulletIdRef g, bullet_x = x, bullet_y = y, bullet_angle = Some a\<rparr>,
         g\<lparr>bulletIdRef := bulletIdRef g + 1\<rparr>)" if "bulletPoolRef g = []"
    using that by (simp add: createBullet_def)
  have 3: "bulletIdRef g \<notin> set (map bullet_id (bulletsRef g @ bulletPoolRef g)) \<and>
      length (bulletPoolRef g) \<le> 100" if "reachable g"
    using poolOk_reachable[OF that]
    by (auto simp: poolOk_def poolOkWith_def list_all_iff MAX_BULLETS_def)
  have 4: "bulletPoolRef (recycleBullets r g) =
     bulletPoolRef g @ take (100 - length (bulletPoolRef g)) r"
    by (simp add: recycleBullets_upd MAX_BULLETS_def)
  have 5: "length (bulletPoolRef (recycleBullets r g)) = min 100 (length (bulletPoolRef g) + length r)"
    if "length (bulletPoolRef g) \<le> 100"
    using that unfolding 4 by simp
  have 6: "bulletIdRef (snd (acquireAll args (recycleBullets r g))) = bulletIdRef g \<and>
      set (map bullet_id (fst (acquireAll args (recycleBullets r g))))
        \<subseteq> set (map bullet_id (bulletPoolRef (recycleBullets r g)))"
    if "length (bulletPoolRef g) \<le> 100" "length r \<le> 100" "length args = length r"
  proof -
    have "length args \<le> length (bulletPoolRef (recycleBullets r g))"
      using that 5[OF that(1)] by simp
    from acquireAll_reuse[OF this] show ?thesis
      by (simp add: recycleBullets_upd)
  qed
  show ?thesis using 1 2 3 4 5 6 by blast
qed

lemma exampleStart_pool:
  "bulletPoolRef exampleStart = []" "bulletIdRef exampleStart = 0" "bulletsRef exampleStart = []"
  by (simp_all add: exampleStart_def step_def handle_def startGame_def startAnimationLoops_def
      scheduleLoop_upd cancelAllFrames_upd effects_def Let_def)

theorem bullet_pool_contract_witness:
  "bulletPoolRef exampleStart = [] \<and>
   fst (createBullet 1 2 0 exampleStart) =
     \<lparr>bullet_id = 0, bullet_x = 1, bullet_y = 2, bullet_angle = Some 0\<rparr> \<and>
   bulletIdRef (snd (createBullet 1 2 0 exampleStart)) = 1 \<and>
   reachable exampleStart \<and> length (bulletPoolRef exampleStart) \<le> 100 \<and>
   bulletPoolRef (recycleBullets [\<lparr>bullet_id = 7, bullet_x = 5, bullet_y = 6, bullet_angle = None\<rparr>]
                    exampleStart) \<noteq> [] \<and>
   fst (createBullet 1 2 0
          (recycleBullets [\<lparr>bullet_id = 7, bullet_x = 5, bullet_y = 6, bullet_angle = None\<rparr>]
             exampleStart)) =
     \<lparr>bullet_id = 7, bullet_x = 1, bullet_y = 2, bullet_angle = Some 0\<rparr> \<and>
   bulletIdRef (snd (acquireAll [(1, 2, 0)]
      (recycleBullets [\<lparr>bullet_id = 7, bullet_x = 5, bullet_y = 6, bullet_angle = None\<rparr>]
         exampleStart))) = bulletIdRef exampleStart"
  using bullet_pool_contract[of exampleStart 1 2 0
      "[\<lparr>bullet_id = 7, bullet_x = 5, bullet_y = 6, bullet_angle = None\<rparr>]" "[(1, 2, 0)]"]
    bullet_pool_contract[of "recycleBullets [\<lparr>bullet_id = 7, bullet_x = 5, bullet_y = 6, bullet_angle = None\<rparr>]
         exampleStart" 1 2 0 "[]" "[]"]
    exampleStart_pool exampleStart_reachable
  by (simp add: recycleBullets_upd MAX_BULLETS_def)

lemma fold_resolve_no_blocks: "fold spec_resolve bs ([], sc) = ([], sc)"
  by (induction bs) (simp_all add: spec_resolve_def)

lemma hitsAny_Nil [simp]: "hitsAny b [] = False"
  by (simp add: hitsAny_def)

lemma checkCollisions_idle:
  assumes "gameState g = playing" "bulletsRef g = [] \<or> blocksRef g = []"
  shows "checkCollisions g = scheduleLoop Collisions g"
  using assms by (auto simp: checkCollisions_def)

lemma checkCollisions_fields_playing:
  assumes "gameState g = playing"
  shows "bulletsRef (checkCollisions g) =
           filter (\<lambda>bullet. \<not> list_ex (\<lambda>b. bullet_id b = bullet_id bullet)
                                 (filter (\<lambda>b. hitsAny b (blocksRef g)) (bulletsRef g)))
             (bulletsRef g) \<and>
         bulletPoolRef (checkCollisions g) =
           bulletPoolRef g @ take (MAX_BULLETS - length (bulletPoolRef g))
                               (filter (\<lambda>b. hitsAny b (blocksRef g)) (bulletsRef g)) \<and>
         scoreRef (checkCollisions g) =
           snd (fold spec_resolve (bulletsRef g) (blocksRef g, scoreRef g)) \<and>
         blocksRef (checkCollisions g) =
           (if filter (\<lambda>b. hitsAny b (blocksRef g)) (bulletsRef g) = []
            then fst (fold spec_resolve (bulletsRef g) (blocksRef g, scoreRef g))
            else filter (\<lambda>block. \<not> block_isBreakable block \<or> block_hp block > 0)
                   (fst (fold spec_resolve (bulletsRef g) (blocksRef g, scoreRef g))))"
proof -
  consider (a) "bulletsRef g = []" | (b) "blocksRef g = []"
    | (c) "bulletsRef g \<noteq> []" "blocksRef g \<noteq> []"
    by blast
  then show ?thesis
  proof cases
    case a
    then show ?thesis
      by (simp add: checkCollisions_idle[OF assms] scheduleLoop_upd)
  next
    case b
    then show ?thesis
      by (simp add: checkCollisions_idle[OF assms] scheduleLoop_upd fold_resolve_no_blocks)
  next
    case c
    show ?thesis
      using checkCollisions_fields[OF assms c] by simp
  qed
qed

lemma remove_marked_by_id:
  assumes "distinct (map bullet_id bs)" "set marked \<subseteq> set bs"
  shows "filter (\<lambda>bullet. \<not> list_ex (\<lambda>b. bullet_id b = bullet_id bullet) marked) bs =
         filter (\<lambda>b. b \<notin> set marked) bs"
proof (rule filter_cong[OF refl])
  fix x assume x: "x \<in> set bs"
  have i: "inj_on bullet_id (set bs)" using assms(1) by (simp add: distinct_map)
  show "(\<not> list_ex (\<lambda>b. bullet_id b = bullet_id x) marked) = (x \<notin> set marked)"
  proof -
    have "list_ex (\<lambda>b. bullet_id b = bullet_id x) marked \<longleftrightarrow> x \<in> set marked"
    proof
      assume "list_ex (\<lambda>b. bullet_id b = bullet_id x) marked"
      then obtain b where b: "b \<in> set marked" "bullet_id b = bullet_id x"
        by (auto simp: list_ex_iff)
      then have "b \<in> set bs" using assms(2) by auto
      then have "b = x" using i x b(2) by (auto dest: inj_onD)
      then show "x \<in> set marked" using b(1) by simp
    next
      assume "x \<in> set marked"
      then show "list_ex (\<lambda>b. bullet_id b = bullet_id x) marked"
        by (auto simp: list_ex_iff)
    qed
    then show ?thesis by simp
  qed
qed









lemmas eval_defs = step_def handle_def startGame_def startAnimationLoops_def
      scheduleLoop_upd cancelAllFrames_upd effects_def Let_def runFrame_def runHandle_def
      callback_def updateRender_def requestAnimationFrame_def cancelAnimationFrame_def
      animatePlayer_def animateBullets_def animateObjects_def checkCollisions_def
      checkPlayerCollisions_def triggerGameOver_def partitionBullets_filter recycleBullets_upd
      spawnBlock_def spawnOneBlock_def handleTouchMove_def clampTo_def fireBullet_def
      createBullet_def gameLoops_def initialGame_def noKeys_def playerHitsBlock_def
      playerHitsPowerUp_def bulletHitsBlock_def moveBullet_def hitBlock_def MAX_BULLETS_def

lemma exampleClash_reachable: "reachable exampleClash"
  unfolding exampleClash_def by (rule reachable_run) (rule reachable_init)

lemma exampleClash_fields:
  "gameState exampleClash = playing"
  "bulletsRef exampleClash = [\<lparr>bullet_id = 0, bullet_x = 196, bullet_y = - 8, bullet_angle = Some 0\<rparr>]"
  "blocksRef exampleClash = [\<lparr>block_id = 0, block_x = 180, block_y = - 41, block_hp = 6,
                               block_isHit = False, block_isBreakable = True\<rparr>]"
  "bulletPoolRef exampleClash = []"
  "scoreRef exampleClash = 0"
  "score exampleClash = 0"
  "position_x exampleClash = 176"
  "position_y exampleClash = 0"
  by (simp_all add: exampleClash_def run_def eval_defs)

lemmas spec_defs = hitsAny_def bulletHitsBlock_def spec_resolve_def firstOverlap_def spec_hit_def

subsection \<open>Bullet motion and the final score\<close>





text \<open>
  Claim C1. The overlap of the player with a block ends the game in the same frame, but
  the recorded final score is the render state \<^verbatim>\<open>score\<close>, which \<^verbatim>\<open>updateRender\<close> copies from
  \<^verbatim>\<open>scoreRef\<close> at the start of a frame and only while the game is played. In
  \<open>exampleClash\<close> the next frame lets the bullet hit the block (the score becomes 1) and
  then lets the block overlap the player: the game is over, the score is 1 and the
  recorded final score is 0.
\<close>

theorem final_score_misses_last_frame:
  "gameState exampleClash = playing \<and> scoreRef exampleClash = 0 \<and>
   gameState (step Frame exampleClash) = gameOver \<and>
   scoreRef (step Frame exampleClash) = 1 \<and>
   finalScoreRef (step Frame exampleClash) = 0"
  by (simp add: exampleClash_def run_def eval_defs)

lemma fatal_overlap:
  assumes "gameState g = playing" and "list_ex (playerHitsBlock g) (blocksRef g)"
  shows "gameState (checkPlayerCollisions g) = gameOver"
  using assms by (simp add: checkPlayerCollisions_def triggerGameOver_def cancelAllFrames_upd)

subsection \<open>The order of the loops in a frame\<close>

lemma prepend_fields [simp]:
  "gameState (prependCallbacks c g) = gameState g"
  "rafCallbacks (prependCallbacks c g) = c @ rafCallbacks g"
  "rafNextHandle (prependCallbacks c g) = rafNextHandle g"
  "animationFrameIds (prependCallbacks c g) = animationFrameIds g"
  by (simp_all add: prependCallbacks_def)

lemma updateRender_prepend:
  "updateRender (prependCallbacks c g) = prependCallbacks c (updateRender g)"
  by (simp add: updateRender_def requestAnimationFrame_def prependCallbacks_def Let_def)

lemma animatePlayer_prepend:
  "animatePlayer (prependCallbacks c g) = prependCallbacks c (animatePlayer g)"
  by (simp add: animatePlayer_def scheduleLoop_upd prependCallbacks_def Let_def)

lemma animateBullets_prepend:
  "animateBullets (prependCallbacks c g) = prependCallbacks c (animateBullets g)"
  by (simp add: animateBullets_def scheduleLoop_upd prependCallbacks_def Let_def
      partitionBullets_filter recycleBullets_upd)

lemma animateObjects_prepend:
  "animateObjects (prependCallbacks c g) = prependCallbacks c (animateObjects g)"
  by (simp add: animateObjects_def scheduleLoop_upd prependCallbacks_def Let_def)

lemma checkCollisions_prepend:
  "checkCollisions (prependCallbacks c g) = prependCallbacks c (checkCollisions g)"
  by (simp add: checkCollisions_def scheduleLoop_upd prependCallbacks_def Let_def
      scanBullets_result recycleBullets_upd)

lemma updateRender_raf:
  "rafCallbacks (updateRender g) = rafCallbacks g @ [(rafNextHandle g, Render)]"
  "rafNextHandle (updateRender g) = Suc (rafNextHandle g)"
  "gameState (updateRender g) = gameState g"
  "animationFrameIds (updateRender g) = animationFrameIds g"
  by (simp_all add: updateRender_def requestAnimationFrame_def Let_def)

lemma animatePlayer_raf:
  assumes "gameState g = playing"
  shows "rafCallbacks (animatePlayer g) = rafCallbacks g @ [(rafNextHandle g, AnimPlayer)]"
  "rafNextHandle (animatePlayer g) = Suc (rafNextHandle g)"
  "gameState (animatePlayer g) = playing"
  "animationFrameIds (animatePlayer g) = (animationFrameIds g)(AnimPlayer := Some (rafNextHandle g))"
  using assms by (simp_all add: animatePlayer_def scheduleLoop_upd Let_def)

lemma animateBullets_raf:
  assumes "gameState g = playing"
  shows "rafCallbacks (animateBullets g) = rafCallbacks g @ [(rafNextHandle g, AnimBullets)]"
  "rafNextHandle (animateBullets g) = Suc (rafNextHandle g)"
  "gameState (animateBullets g) = playing"
  "animationFrameIds (animateBullets g) = (animationFrameIds g)(AnimBullets := Some (rafNextHandle g))"
  using assms
  by (simp_all add: animateBullets_def scheduleLoop_upd Let_def partitionBullets_filter recycleBullets_upd)

lemma animateObjects_raf:
  assumes "gameState g = playing"
  shows "rafCallbacks (animateObjects g) = rafCallbacks g @ [(rafNextHandle g, AnimObjects)]"
  "rafNextHandle (animateObjects g) = Suc (rafNextHandle g)"
  "gameState (animateObjects g) = playing"
  "animationFrameIds (animateObjects g) = (animationFrameIds g)(AnimObjects := Some (rafNextHandle g))"
  using assms by (simp_all add: animateObjects_def scheduleLoop_upd Let_def)

lemma checkCollisions_raf:
  assumes "gameState g = playing"
  shows "rafCallbacks (checkCollisions g) = rafCallbacks g @ [(rafNextHandle g, Collisions)]"
  "rafNextHandle (checkCollisions g) = Suc (rafNextHandle g)"
  "gameState (checkCollisions g) = playing"
  "animationFrameIds (checkCollisions g) = (animationFrameIds g)(Collisions := Some (rafNextHandle g))"
  using assms
  by (simp_all add: checkCollisions_def scheduleLoop_upd Let_def scanBullets_result recycleBullets_upd)

lemma runHandle_prepend:
  assumes "h \<notin> fst ` set c" "h \<notin> fst ` set (rafCallbacks s)"
  shows "runHandle h (prependCallbacks ((h, l) # c) s) = callback l (prependCallbacks c s)"
proof -
  have "filter (\<lambda>e. fst e \<noteq> h) xs = xs" if "h \<notin> fst ` set xs" for xs :: "(nat \<times> Loop) list"
    using that by (induction xs) auto
  then have "filter (\<lambda>e. fst e \<noteq> h) (c @ rafCallbacks s) = c @ rafCallbacks s"
    using assms by simp
  then show ?thesis
    by (simp add: runHandle_def cancelAnimationFrame_def prependCallbacks_def)
qed

lemma schedOk_ignores [simp]:
  "schedOk (g\<lparr>gameTime := v1\<rparr>) = schedOk g "
  "schedOk (g\<lparr>blockSpawnRate := v2\<rparr>) = schedOk g "
  "schedOk (g\<lparr>blockFallSpeed := v3\<rparr>) = schedOk g "
  "schedOk (g\<lparr>blocksPerWave := v4\<rparr>) = schedOk g "
  "schedOk (g\<lparr>activePowerUps := v5\<rparr>) = schedOk g "
  "schedOk (g\<lparr>powerUpTimeLeft := v6\<rparr>) = schedOk g "
  "schedOk (g\<lparr>position_x := v7\<rparr>) = schedOk g "
  "schedOk (g\<lparr>position_y := v8\<rparr>) = schedOk g "
  "schedOk (g\<lparr>keys := v9\<rparr>) = schedOk g "
  "schedOk (g\<lparr>isDragging := v10\<rparr>) = schedOk g "
  "schedOk (g\<lparr>bulletsRef := v11\<rparr>) = schedOk g "
  "schedOk (g\<lparr>blocksRef := v12\<rparr>) = schedOk g "
  "schedOk (g\<lparr>powerUpsRef := v13\<rparr>) = schedOk g "
  "schedOk (g\<lparr>bulletPoolRef := v14\<rparr>) = schedOk g "
  "schedOk (g\<lparr>bulletIdRef := v15\<rparr>) = schedOk g "
  "schedOk (g\<lparr>blockIdRef := v16\<rparr>) = schedOk g "
  "schedOk (g\<lparr>powerUpIdRef := v17\<rparr>) = schedOk g "
  "schedOk (g\<lparr>scoreRef := v18\<rparr>) = schedOk g "
  "schedOk (g\<lparr>score := v19\<rparr>) = schedOk g "
  "schedOk (g\<lparr>finalScoreRef := v20\<rparr>) = schedOk g "
  "schedOk (g\<lparr>needsRenderRef := v21\<rparr>) = schedOk g "
  "schedOk (g\<lparr>lastFireTimeRef := v22\<rparr>) = schedOk g "
  "schedOk (g\<lparr>containerWidth := v23\<rparr>) = schedOk g "
  "schedOk (g\<lparr>containerHeight := v24\<rparr>) = schedOk g "
  "schedOk (g\<lparr>hitResetPending := v25\<rparr>) = schedOk g "
  by (simp_all add: schedOk_def)


lemma prependCallbacks_Nil: "prependCallbacks [] s = s"
  by (simp add: prependCallbacks_def)

lemma frame_composition:
  assumes p: "gameState g = playing"
    and q: "rafCallbacks g = (m, Render) # gameQueue k" and mk: "m < k"
    and n: "rafNextHandle g = k + 5"
  shows "runFrame g =
         checkPlayerCollisions (checkCollisions (animateObjects (animateBullets
           (animatePlayer (updateRender (g\<lparr>rafCallbacks := []\<rparr>))))))"
proof -
  let ?s0 = "g\<lparr>rafCallbacks := []\<rparr>"
  let ?s1 = "updateRender ?s0"
  let ?s2 = "animatePlayer ?s1"
  let ?s3 = "animateBullets ?s2"
  let ?s4 = "animateObjects ?s3"
  let ?s5 = "checkCollisions ?s4"
  have g: "g = prependCallbacks ((m, Render) # gameQueue k) ?s0"
    by (simp add: prependCallbacks_def q[symmetric])
  have p1: "gameState ?s1 = playing" using p by (simp add: updateRender_raf)
  have p2: "gameState ?s2 = playing" using p1 by (rule animatePlayer_raf)
  have p3: "gameState ?s3 = playing" using p2 by (rule animateBullets_raf)
  have p4: "gameState ?s4 = playing" using p3 by (rule animateObjects_raf)
  have r1: "rafCallbacks ?s1 = [(k + 5, Render)]" "rafNextHandle ?s1 = k + 6"
    using n by (simp_all add: updateRender_raf)
  have r2: "rafCallbacks ?s2 = [(k + 5, Render), (k + 6, AnimPlayer)]" "rafNextHandle ?s2 = k + 7"
    using r1 by (simp_all add: animatePlayer_raf[OF p1])
  have r3: "rafCallbacks ?s3 = [(k + 5, Render), (k + 6, AnimPlayer), (k + 7, AnimBullets)]"
    "rafNextHandle ?s3 = k + 8"
    using r2 by (simp_all add: animateBullets_raf[OF p2])
  have r4: "rafCallbacks ?s4 = [(k + 5, Render), (k + 6, AnimPlayer), (k + 7, AnimBullets),
                               (k + 8, AnimObjects)]" "rafNextHandle ?s4 = k + 9"
    using r3 by (simp_all add: animateObjects_raf[OF p3])
  have r5: "rafCallbacks ?s5 = [(k + 5, Render), (k + 6, AnimPlayer), (k + 7, AnimBullets),
                               (k + 8, AnimObjects), (k + 9, Collisions)]"
    using r4 by (simp_all add: checkCollisions_raf[OF p4])
  have h0: "runHandle m g = prependCallbacks (gameQueue k) ?s1"
    apply (subst g)
    apply (subst runHandle_prepend)
    using mk apply (simp_all add: gameQueue_def callback_def updateRender_prepend)
    done
  have h1: "runHandle k (prependCallbacks (gameQueue k) ?s1) = prependCallbacks (tl (gameQueue k)) ?s2"
    unfolding gameQueue_def
    apply (subst runHandle_prepend)
    apply (simp_all add: r1 callback_def animatePlayer_prepend)
    done
  have h2: "runHandle (k + 1) (prependCallbacks (tl (gameQueue k)) ?s2) =
            prependCallbacks (tl (tl (gameQueue k))) ?s3"
    unfolding gameQueue_def list.sel
    apply (subst runHandle_prepend)
    apply (simp_all add: r2 callback_def animateBullets_prepend)
    done
  have h3: "runHandle (k + 2) (prependCallbacks (tl (tl (gameQueue k))) ?s3) =
            prependCallbacks (tl (tl (tl (gameQueue k)))) ?s4"
    unfolding gameQueue_def list.sel
    apply (subst runHandle_prepend)
    apply (simp_all add: r3 callback_def animateObjects_prepend)
    done
  have h4: "runHandle (k + 3) (prependCallbacks (tl (tl (tl (gameQueue k)))) ?s4) =
            prependCallbacks [(k + 4, PlayerCollisions)] ?s5"
    unfolding gameQueue_def list.sel
    apply (subst runHandle_prepend)
    apply (simp_all add: r4 callback_def checkCollisions_prepend)
    done
  have h5: "runHandle (k + 4) (prependCallbacks [(k + 4, PlayerCollisions)] ?s5) =
            checkPlayerCollisions ?s5"
    apply (subst runHandle_prepend)
    apply (simp_all add: r5 callback_def prependCallbacks_Nil)
    done
  have "runFrame g = runHandle (k + 4) (runHandle (k + 3) (runHandle (k + 2) (runHandle (k + 1)
                        (runHandle k (runHandle m g)))))"
    by (simp add: runFrame_def q gameQueue_def)
  then show ?thesis
    by (simp only: h0 h1 h2 h3 h4 h5)
qed

lemma frame_before_player_check:
  assumes p: "gameState g = playing" and n: "rafNextHandle g = k + 5"
  defines "s \<equiv> checkCollisions (animateObjects (animateBullets
                   (animatePlayer (updateRender (g\<lparr>rafCallbacks := []\<rparr>)))))"
  shows "gameState s = playing"
    and "rafCallbacks s = [(k + 5, Render), (k + 6, AnimPlayer), (k + 7, AnimBullets),
                            (k + 8, AnimObjects), (k + 9, Collisions)]"
    and "rafNextHandle s = k + 10"
    and "animationFrameIds s =
           (animationFrameIds g)(AnimPlayer \<mapsto> k + 6, AnimBullets \<mapsto> k + 7,
                                 AnimObjects \<mapsto> k + 8, Collisions \<mapsto> k + 9)"
proof -
  let ?s0 = "g\<lparr>rafCallbacks := []\<rparr>"
  let ?s1 = "updateRender ?s0"
  let ?s2 = "animatePlayer ?s1"
  let ?s3 = "animateBullets ?s2"
  let ?s4 = "animateObjects ?s3"
  have p1: "gameState ?s1 = playing" using p by (simp add: updateRender_raf)
  have p2: "gameState ?s2 = playing" using p1 by (rule animatePlayer_raf)
  have p3: "gameState ?s3 = playing" using p2 by (rule animateBullets_raf)
  have p4: "gameState ?s4 = playing" using p3 by (rule animateObjects_raf)
  have r1: "rafCallbacks ?s1 = [(k + 5, Render)]" "rafNextHandle ?s1 = k + 6"
    "animationFrameIds ?s1 = animationFrameIds g"
    using n by (simp_all add: updateRender_raf)
  have r2: "rafCallbacks ?s2 = [(k + 5, Render), (k + 6, AnimPlayer)]" "rafNextHandle ?s2 = k + 7"
    "animationFrameIds ?s2 = (animationFrameIds g)(AnimPlayer \<mapsto> k + 6)"
    using r1 by (simp_all add: animatePlayer_raf[OF p1])
  have r3: "rafCallbacks ?s3 = [(k + 5, Render), (k + 6, AnimPlayer), (k + 7, AnimBullets)]"
    "rafNextHandle ?s3 = k + 8"
    "animationFrameIds ?s3 = (animationFrameIds g)(AnimPlayer \<mapsto> k + 6, AnimBullets \<mapsto> k + 7)"
    using r2 by (simp_all add: animateBullets_raf[OF p2])
  have r4: "rafCallbacks ?s4 = [(k + 5, Render), (k + 6, AnimPlayer), (k + 7, AnimBullets),
                               (k + 8, AnimObjects)]" "rafNextHandle ?s4 = k + 9"
    "animationFrameIds ?s4 = (animationFrameIds g)(AnimPlayer \<mapsto> k + 6, AnimBullets \<mapsto> k + 7,
                                 AnimObjects \<mapsto> k + 8)"
    using r3 by (simp_all add: animateObjects_raf[OF p3])
  show "gameState s = playing" unfolding s_def using p4 by (rule checkCollisions_raf)
  show "rafCallbacks s = [(k + 5, Render), (k + 6, AnimPlayer), (k + 7, AnimBullets),
                            (k + 8, AnimObjects), (k + 9, Collisions)]"
    unfolding s_def using r4 by (simp add: checkCollisions_raf[OF p4])
  show "rafNextHandle s = k + 10"
    unfolding s_def using r4 by (simp add: checkCollisions_raf[OF p4])
  show "animationFrameIds s =
           (animationFrameIds g)(AnimPlayer \<mapsto> k + 6, AnimBullets \<mapsto> k + 7,
                                 AnimObjects \<mapsto> k + 8, Collisions \<mapsto> k + 9)"
    unfolding s_def using r4 by (simp add: checkCollisions_raf[OF p4])
qed

lemma fold_activate_raf:
  "gameState (fold (\<lambda>powerUp g'. if P powerUp then activatePowerUp (powerUp_type powerUp) g' else g') ps g) = gameState g \<and>
   rafCallbacks (fold (\<lambda>powerUp g'. if P powerUp then activatePowerUp (powerUp_type powerUp) g' else g') ps g) = rafCallbacks g \<and>
   rafNextHandle (fold (\<lambda>powerUp g'. if P powerUp then activatePowerUp (powerUp_type powerUp) g' else g') ps g) = rafNextHandle g \<and>
   animationFrameIds (fold (\<lambda>powerUp g'. if P powerUp then activatePowerUp (powerUp_type powerUp) g' else g') ps g) = animationFrameIds g"
  by (induction ps arbitrary: g) (simp_all add: activatePowerUp_def)

lemma checkPlayerCollisions_raf:
  assumes "gameState g = playing"
  shows "list_ex (playerHitsBlock g) (blocksRef g) \<Longrightarrow>
           checkPlayerCollisions g = triggerGameOver g"
    and "\<not> list_ex (playerHitsBlock g) (blocksRef g) \<Longrightarrow>
           gameState (checkPlayerCollisions g) = playing \<and>
           rafCallbacks (checkPlayerCollisions g) = rafCallbacks g @ [(rafNextHandle g, PlayerCollisions)] \<and>
           rafNextHandle (checkPlayerCollisions g) = Suc (rafNextHandle g) \<and>
           animationFrameIds (checkPlayerCollisions g) =
             (animationFrameIds g)(PlayerCollisions \<mapsto> rafNextHandle g)"
  using assms
  by (simp_all add: checkPlayerCollisions_def scheduleLoop_upd Let_def fold_activate_raf)

lemma gameIds_next:
  "(gameIds k)(AnimPlayer \<mapsto> k + 6, AnimBullets \<mapsto> k + 7, AnimObjects \<mapsto> k + 8,
               Collisions \<mapsto> k + 9, PlayerCollisions \<mapsto> k + 10) = gameIds (k + 6)"
proof
  fix l show "((gameIds k)(AnimPlayer \<mapsto> k + 6, AnimBullets \<mapsto> k + 7, AnimObjects \<mapsto> k + 8,
               Collisions \<mapsto> k + 9, PlayerCollisions \<mapsto> k + 10)) l = gameIds (k + 6) l"
    by (cases l) (simp_all add: gameIds_def)
qed

lemma schedOk_runFrame: "schedOk g \<Longrightarrow> schedOk (runFrame g)"
proof (cases "gameState g = playing")
  case True
  assume "schedOk g"
  then obtain m k where mk: "0 < m" "m < k"
    and q: "rafCallbacks g = (m, Render) # gameQueue k"
    and n: "rafNextHandle g = k + 5" and i: "animationFrameIds g = gameIds k"
    using True by (auto simp: schedOk_def)
  let ?s = "checkCollisions (animateObjects (animateBullets
                   (animatePlayer (updateRender (g\<lparr>rafCallbacks := []\<rparr>)))))"
  note s = frame_before_player_check[OF True n]
  have eq: "runFrame g = checkPlayerCollisions ?s"
    using True q mk(2) n by (rule frame_composition)
  show ?thesis
  proof (cases "list_ex (playerHitsBlock ?s) (blocksRef ?s)")
    case hit: True
    have "checkPlayerCollisions ?s = triggerGameOver ?s"
      using s(1) hit by (rule checkPlayerCollisions_raf(1))
    then show ?thesis
      unfolding eq
      by (simp add: schedOk_def triggerGameOver_def cancelAllFrames_upd s i gameIds_def
          gameLoops_def)
  next
    case miss: False
    note c = checkPlayerCollisions_raf(2)[OF s(1) miss]
    have "animationFrameIds (checkPlayerCollisions ?s) = gameIds (k + 6)"
      using c by (simp add: s i gameIds_next)
    then show ?thesis
      unfolding eq schedOk_def using c mk
      by (simp add: s gameQueue_def)
  qed
next
  case False
  assume "schedOk g"
  then obtain m where m: "0 < m" "m < rafNextHandle g"
    and q: "rafCallbacks g = [(m, Render)]" and i: "animationFrameIds g = (\<lambda>_. None)"
    using False by (auto simp: schedOk_def)
  show ?thesis
    using False m i
    by (simp add: runFrame_def q runHandle_def callback_def cancelAnimationFrame_def
        updateRender_raf schedOk_def)
qed

lemma schedOk_effects: "schedOk g \<Longrightarrow> schedOk (effects g)"
  by (auto simp: effects_def Let_def cancelAllFrames_upd schedOk_def gameLoops_def)

lemma schedOk_startGame: "schedOk g \<Longrightarrow> schedOk (startGame ks d g)"
proof -
  assume ok: "schedOk g"
  have "\<exists>m. 0 < m \<and> m < rafNextHandle g \<and> rafCallbacks (cancelAllFrames g) = [(m, Render)]"
  proof (cases "gameState g = playing")
    case True
    then obtain m k where mk: "0 < m" "m < k"
      and q: "rafCallbacks g = (m, Render) # gameQueue k"
      and n: "rafNextHandle g = k + 5" and i: "animationFrameIds g = gameIds k"
      using ok by (auto simp: schedOk_def)
    show ?thesis
      using mk by (auto simp: cancelAllFrames_upd q n i gameQueue_def gameIds_def gameLoops_def)
  next
    case False
    then show ?thesis
      using ok by (auto simp: schedOk_def cancelAllFrames_upd gameLoops_def)
  qed
  then obtain m where m: "0 < m" "m < rafNextHandle g"
    and c: "rafCallbacks (cancelAllFrames g) = [(m, Render)]" by blast
  have c': "rafCallbacks (cancelAllFrames g) = [(m, Render)]" by (rule c)
  have ids: "[AnimPlayer \<mapsto> n, AnimBullets \<mapsto> Suc n, AnimObjects \<mapsto> Suc (Suc n),
              Collisions \<mapsto> Suc (Suc (Suc n)), PlayerCollisions \<mapsto> Suc (Suc (Suc (Suc n)))] = gameIds n" for n
    by (simp add: gameIds_def eval_nat_numeral)
  show ?thesis
    using m c'
    by (simp add: startGame_def startAnimationLoops_def scheduleLoop_upd cancelAllFrames_upd
        schedOk_def gameQueue_def ids)
qed

lemma schedOk_recycleBullets: "schedOk (recycleBullets r g) = schedOk g"
  by (simp add: recycleBullets_def Let_def)

lemma schedOk_activatePowerUp: "schedOk (activatePowerUp u g) = schedOk g"
  by (simp add: activatePowerUp_def)

lemma schedOk_spawnPowerUp: "schedOk (spawnPowerUp rx rt g) = schedOk g"
  by (simp add: spawnPowerUp_def Let_def)

lemma schedOk_spawnOneBlock: "schedOk (spawnOneBlock i r g) = schedOk g"
  by (simp add: spawnOneBlock_def Let_def split: prod.splits)

lemma schedOk_createBullet: "schedOk (snd (createBullet x y a g)) = schedOk g"
  by (simp add: createBullet_def)

lemma schedOk_gameTimerTick: "schedOk g \<Longrightarrow> schedOk (gameTimerTick rx rt g)"
  by (simp add: gameTimerTick_def Let_def schedOk_spawnPowerUp)

lemma schedOk_powerUpTimerTick: "schedOk g \<Longrightarrow> schedOk (powerUpTimerTick g)"
  by (simp add: powerUpTimerTick_def Let_def)

lemma schedOk_fireBullet: "schedOk g \<Longrightarrow> schedOk (fireBullet now g)"
  by (simp add: fireBullet_def Let_def case_prod_beta schedOk_createBullet)

lemma schedOk_spawnBlock: "schedOk g \<Longrightarrow> schedOk (spawnBlock rnd g)"
  by (auto simp: spawnBlock_def schedOk_spawnOneBlock intro!: fold_invariant[where P = schedOk])

lemma schedOk_handleTouchMove: "schedOk g \<Longrightarrow> schedOk (handleTouchMove nx ny g)"
  by (simp add: handleTouchMove_def)

lemma schedOk_hitResetTimeout: "schedOk g \<Longrightarrow> schedOk (hitResetTimeout g)"
  by (simp add: hitResetTimeout_def)

lemma schedOk_handle: "schedOk g \<Longrightarrow> schedOk (handle e g)"
  by (cases e) (simp_all add: handle_def schedOk_startGame schedOk_runFrame schedOk_gameTimerTick schedOk_powerUpTimerTick schedOk_fireBullet schedOk_spawnBlock schedOk_handleTouchMove schedOk_hitResetTimeout)

lemma schedOk_step: "schedOk g \<Longrightarrow> schedOk (step e g)"
  by (simp add: step_def schedOk_effects schedOk_handle)

lemma schedOk_reachable: "reachable g \<Longrightarrow> schedOk g"
proof (induction rule: reachable.induct)
  case (reachable_init cw ch)
  show ?case by (simp add: schedOk_def initialGame_def)
next
  case (reachable_step g e)
  from reachable_step.IH show ?case by (rule schedOk_step)
qed

text \<open>
  Claim C8. In every reachable state of a played game the pending animation frame
  callbacks are, in order, \<^verbatim>\<open>updateRender\<close>, \<^verbatim>\<open>animatePlayer\<close>, \<^verbatim>\<open>animateBullets\<close>,
  \<^verbatim>\<open>animateObjects\<close>, \<^verbatim>\<open>checkCollisions\<close> and \<^verbatim>\<open>checkPlayerCollisions\<close>, and a frame
  is their composition in that order: the motion of the player, of the bullets and of
  the blocks and power-ups is complete before \<^verbatim>\<open>checkCollisions\<close> runs, and
  \<^verbatim>\<open>checkCollisions\<close>, with its removal of bullets and blocks, is complete before
  \<^verbatim>\<open>checkPlayerCollisions\<close> checks the player against blocks and power-ups.
\<close>

theorem frame_order:
  assumes "reachable g" and "gameState g = playing"
  shows "map snd (rafCallbacks g) =
           [Render, AnimPlayer, AnimBullets, AnimObjects, Collisions, PlayerCollisions] \<and>
         runFrame g =
           checkPlayerCollisions (checkCollisions (animateObjects (animateBullets
             (animatePlayer (updateRender (g\<lparr>rafCallbacks := []\<rparr>))))))"
proof -
  have "schedOk g" using assms(1) by (rule schedOk_reachable)
  then obtain m k where mk: "0 < m" "m < k"
    and q: "rafCallbacks g = (m, Render) # gameQueue k"
    and n: "rafNextHandle g = k + 5"
    using assms(2) by (auto simp: schedOk_def)
  have "map snd (rafCallbacks g) =
           [Render, AnimPlayer, AnimBullets, AnimObjects, Collisions, PlayerCollisions]"
    by (simp add: q gameQueue_def)
  moreover have "runFrame g =
           checkPlayerCollisions (checkCollisions (animateObjects (animateBullets
             (animatePlayer (updateRender (g\<lparr>rafCallbacks := []\<rparr>))))))"
    using assms(2) q mk(2) n by (rule frame_composition)
  ultimately show ?thesis by simp
qed

theorem frame_order_witness:
  "reachable exampleClash \<and> gameState exampleClash = playing \<and>
   map snd (rafCallbacks exampleClash) =
     [Render, AnimPlayer, AnimBullets, AnimObjects, Collisions, PlayerCollisions] \<and>
   runFrame exampleClash =
     checkPlayerCollisions (checkCollisions (animateObjects (animateBullets
       (animatePlayer (updateRender (exampleClash\<lparr>rafCallbacks := []\<rparr>))))))"
  using frame_order[OF exampleClash_reachable exampleClash_fields(1)]
    exampleClash_reachable exampleClash_fields(1)
  by simp

lemma score_before_player_check:
  "score (checkCollisions (animateObjects (animateBullets (animatePlayer (updateRender g))))) =
     (if needsRenderRef g \<and> gameState g = playing then scoreRef g else score g)"
proof -
  have 1: "score (checkCollisions x) = score x" for x
    by (simp add: checkCollisions_def scheduleLoop_upd Let_def scanBullets_result recycleBullets_upd)
  have 2: "score (animateObjects x) = score x" for x
    by (simp add: animateObjects_def scheduleLoop_upd Let_def)
  have 3: "score (animateBullets x) = score x" for x
    by (simp add: animateBullets_def scheduleLoop_upd Let_def partitionBullets_filter recycleBullets_upd)
  have 4: "score (animatePlayer x) = score x" for x
    by (simp add: animatePlayer_def scheduleLoop_upd Let_def)
  show ?thesis
    unfolding 1 2 3 4 by (simp add: updateRender_def requestAnimationFrame_def Let_def)
qed

text \<open>
  In general: when, in a frame of a reachable played game, the player overlaps a block
  after the motion and the collision pass, the game is over after the frame, and the
  recorded final score is the score published at the start of the frame, without the
  points of the frame's collision pass.
\<close>

lemma fatal_frame:
  assumes "reachable g" and "gameState g = playing"
    and "list_ex
           (playerHitsBlock (checkCollisions (animateObjects (animateBullets
              (animatePlayer (updateRender (g\<lparr>rafCallbacks := []\<rparr>)))))))
           (blocksRef (checkCollisions (animateObjects (animateBullets
              (animatePlayer (updateRender (g\<lparr>rafCallbacks := []\<rparr>)))))))"
  shows "gameState (step Frame g) = gameOver \<and>
         scoreRef (step Frame g) =
           scoreRef (checkCollisions (animateObjects (animateBullets
              (animatePlayer (updateRender (g\<lparr>rafCallbacks := []\<rparr>)))))) \<and>
         finalScoreRef (step Frame g) = (if needsRenderRef g then scoreRef g else score g)"
proof -
  let ?s = "checkCollisions (animateObjects (animateBullets
              (animatePlayer (updateRender (g\<lparr>rafCallbacks := []\<rparr>)))))"
  have "schedOk g" using assms(1) by (rule schedOk_reachable)
  then obtain m k where mk: "0 < m" "m < k"
    and q: "rafCallbacks g = (m, Render) # gameQueue k"
    and n: "rafNextHandle g = k + 5"
    using assms(2) by (auto simp: schedOk_def)
  have eq: "runFrame g = checkPlayerCollisions ?s"
    using assms(2) q mk(2) n by (rule frame_composition)
  have p: "gameState ?s = playing"
    using assms(2) n by (rule frame_before_player_check)
  have t: "checkPlayerCollisions ?s = triggerGameOver ?s"
    using p assms(3) by (rule checkPlayerCollisions_raf(1))
  have sc: "score ?s = (if needsRenderRef g then scoreRef g else score g)"
    using assms(2) by (simp add: score_before_player_check)
  show ?thesis
    unfolding step_def handle_def event.case eq t
    by (simp add: effects_def triggerGameOver_def cancelAllFrames_upd Let_def sc)
qed

subsection \<open>The collision pass of a frame\<close>

text \<open>
  The callbacks of a frame up to \<^verbatim>\<open>checkCollisions\<close>, and the state on which the frame
  calls it.
\<close>

lemma motion_in_frame:
  assumes p: "gameState g = playing"
    and q: "rafCallbacks g = (m, Render) # gameQueue k" and mk: "m < k"
    and n: "rafNextHandle g = k + 5"
  shows "passState g =
           prependCallbacks [(k + 4, PlayerCollisions)]
             (animateObjects (animateBullets (animatePlayer (updateRender (g\<lparr>rafCallbacks := []\<rparr>)))))"
    and "frameHandles g = [m, k, k + 1, k + 2, k + 3, k + 4]"
    and "map_of (rafCallbacks (fold runHandle (take 4 (frameHandles g)) g)) (frameHandles g ! 4) =
           Some Collisions"
proof -
  let ?s0 = "g\<lparr>rafCallbacks := []\<rparr>"
  let ?s1 = "updateRender ?s0"
  let ?s2 = "animatePlayer ?s1"
  let ?s3 = "animateBullets ?s2"
  let ?s4 = "animateObjects ?s3"
  have g: "g = prependCallbacks ((m, Render) # gameQueue k) ?s0"
    by (simp add: prependCallbacks_def q[symmetric])
  have p1: "gameState ?s1 = playing" using p by (simp add: updateRender_raf)
  have p2: "gameState ?s2 = playing" using p1 by (rule animatePlayer_raf)
  have p3: "gameState ?s3 = playing" using p2 by (rule animateBullets_raf)
  have r1: "rafCallbacks ?s1 = [(k + 5, Render)]" "rafNextHandle ?s1 = k + 6"
    using n by (simp_all add: updateRender_raf)
  have r2: "rafCallbacks ?s2 = [(k + 5, Render), (k + 6, AnimPlayer)]" "rafNextHandle ?s2 = k + 7"
    using r1 by (simp_all add: animatePlayer_raf[OF p1])
  have r3: "rafCallbacks ?s3 = [(k + 5, Render), (k + 6, AnimPlayer), (k + 7, AnimBullets)]"
    "rafNextHandle ?s3 = k + 8"
    using r2 by (simp_all add: animateBullets_raf[OF p2])
  have r4: "rafCallbacks ?s4 = [(k + 5, Render), (k + 6, AnimPlayer), (k + 7, AnimBullets),
                               (k + 8, AnimObjects)]" "rafNextHandle ?s4 = k + 9"
    using r3 by (simp_all add: animateObjects_raf[OF p3])
  have h0: "runHandle m g = prependCallbacks (gameQueue k) ?s1"
    apply (subst g)
    apply (subst runHandle_prepend)
    using mk apply (simp_all add: gameQueue_def callback_def updateRender_prepend)
    done
  have h1: "runHandle k (prependCallbacks (gameQueue k) ?s1) = prependCallbacks (tl (gameQueue k)) ?s2"
    unfolding gameQueue_def
    apply (subst runHandle_prepend)
    apply (simp_all add: r1 callback_def animatePlayer_prepend)
    done
  have h2: "runHandle (k + 1) (prependCallbacks (tl (gameQueue k)) ?s2) =
            prependCallbacks (tl (tl (gameQueue k))) ?s3"
    unfolding gameQueue_def list.sel
    apply (subst runHandle_prepend)
    apply (simp_all add: r2 callback_def animateBullets_prepend)
    done
  have h3: "runHandle (k + 2) (prependCallbacks (tl (tl (gameQueue k))) ?s3) =
            prependCallbacks (tl (tl (tl (gameQueue k)))) ?s4"
    unfolding gameQueue_def list.sel
    apply (subst runHandle_prepend)
    apply (simp_all add: r3 callback_def animateObjects_prepend)
    done
  show hs: "frameHandles g = [m, k, k + 1, k + 2, k + 3, k + 4]"
    by (simp add: frameHandles_def q gameQueue_def)
  have "fold runHandle (take 4 (frameHandles g)) g =
          runHandle (k + 2) (runHandle (k + 1) (runHandle k (runHandle m g)))"
    by (simp add: hs)
  then have f: "fold runHandle (take 4 (frameHandles g)) g =
                  prependCallbacks [(k + 3, Collisions), (k + 4, PlayerCollisions)] ?s4"
    by (simp only: h0 h1 h2 h3) (simp add: gameQueue_def)
  have i4: "frameHandles g ! 4 = k + 3" by (simp add: hs)
  show "map_of (rafCallbacks (fold runHandle (take 4 (frameHandles g)) g)) (frameHandles g ! 4) =
           Some Collisions"
    unfolding f i4 by simp
  show "passState g = prependCallbacks [(k + 4, PlayerCollisions)] ?s4"
    unfolding passState_def f i4
    by (simp add: cancelAnimationFrame_def prependCallbacks_def r4)
qed

text \<open>The identifiers of the blocks are pairwise distinct and below the counter.\<close>

lemma blocksOk_ignores [simp]:
  "blocksOk (g\<lparr>gameState := v1\<rparr>) = blocksOk g "
  "blocksOk (g\<lparr>gameTime := v2\<rparr>) = blocksOk g "
  "blocksOk (g\<lparr>blockSpawnRate := v3\<rparr>) = blocksOk g "
  "blocksOk (g\<lparr>blockFallSpeed := v4\<rparr>) = blocksOk g "
  "blocksOk (g\<lparr>blocksPerWave := v5\<rparr>) = blocksOk g "
  "blocksOk (g\<lparr>activePowerUps := v6\<rparr>) = blocksOk g "
  "blocksOk (g\<lparr>powerUpTimeLeft := v7\<rparr>) = blocksOk g "
  "blocksOk (g\<lparr>position_x := v8\<rparr>) = blocksOk g "
  "blocksOk (g\<lparr>position_y := v9\<rparr>) = blocksOk g "
  "blocksOk (g\<lparr>keys := v10\<rparr>) = blocksOk g "
  "blocksOk (g\<lparr>isDragging := v11\<rparr>) = blocksOk g "
  "blocksOk (g\<lparr>bulletsRef := v12\<rparr>) = blocksOk g "
  "blocksOk (g\<lparr>powerUpsRef := v13\<rparr>) = blocksOk g "
  "blocksOk (g\<lparr>bulletPoolRef := v14\<rparr>) = blocksOk g "
  "blocksOk (g\<lparr>bulletIdRef := v15\<rparr>) = blocksOk g "
  "blocksOk (g\<lparr>powerUpIdRef := v16\<rparr>) = blocksOk g "
  "blocksOk (g\<lparr>scoreRef := v17\<rparr>) = blocksOk g "
  "blocksOk (g\<lparr>score := v18\<rparr>) = blocksOk g "
  "blocksOk (g\<lparr>finalScoreRef := v19\<rparr>) = blocksOk g "
  "blocksOk (g\<lparr>needsRenderRef := v20\<rparr>) = blocksOk g "
  "blocksOk (g\<lparr>lastFireTimeRef := v21\<rparr>) = blocksOk g "
  "blocksOk (g\<lparr>rafCallbacks := v22\<rparr>) = blocksOk g "
  "blocksOk (g\<lparr>rafNextHandle := v23\<rparr>) = blocksOk g "
  "blocksOk (g\<lparr>animationFrameIds := v24\<rparr>) = blocksOk g "
  "blocksOk (g\<lparr>containerWidth := v25\<rparr>) = blocksOk g "
  "blocksOk (g\<lparr>containerHeight := v26\<rparr>) = blocksOk g "
  "blocksOk (g\<lparr>hitResetPending := v27\<rparr>) = blocksOk g "
  by (simp_all add: blocksOk_def)

lemma blocksOk_ids:
  "blocksOk g \<longleftrightarrow>
   distinct (map block_id (blocksRef g)) \<and>
   (\<forall>i \<in> set (map block_id (blocksRef g)). i < blockIdRef g)"
  by (auto simp: blocksOk_def list_all_iff)

lemma blocksOk_filter:
  assumes "blocksOk g" and "blockIdRef g' = blockIdRef g"
    and "map block_id xs = map block_id (blocksRef g)" and "blocksRef g' = filter P xs"
  shows "blocksOk g'"
proof -
  have d: "distinct (map block_id xs)" and b: "\<forall>i \<in> set (map block_id xs). i < blockIdRef g"
    using assms(1,3) by (simp_all add: blocksOk_ids)
  have "distinct (map block_id (filter P xs))" using d by (rule distinct_map_filter)
  moreover have "\<forall>i \<in> set (map block_id (filter P xs)). i < blockIdRef g" using b by auto
  ultimately show ?thesis using assms(2,4) by (simp add: blocksOk_ids)
qed

lemma blocksOk_same_ids:
  assumes "blocksOk g" and "blockIdRef g' = blockIdRef g"
    and "map block_id (blocksRef g') = map block_id (blocksRef g)"
  shows "blocksOk g'"
  using assms by (simp add: blocksOk_ids)

lemma spec_hit_id [simp]: "block_id (spec_hit block) = block_id block"
  by (simp add: spec_hit_def)

lemma spec_resolve_ids:
  "map block_id (fst (spec_resolve b (blocks, sc))) = map block_id blocks"
proof (cases "firstOverlap b blocks")
  case None
  then show ?thesis by (simp add: spec_resolve_def)
next
  case (Some j)
  have "(map block_id blocks)[j := block_id (blocks ! j)] = map block_id blocks"
    using firstOverlap_less[OF Some] by (simp add: list_update_same_conv)
  then show ?thesis using Some by (simp add: spec_resolve_def map_update)
qed

lemma fold_resolve_ids:
  "map block_id (fst (fold spec_resolve bs (blocks, sc))) = map block_id blocks"
proof (induction bs arbitrary: blocks sc)
  case Nil
  then show ?case by simp
next
  case (Cons b bs)
  obtain blocks' sc' where r: "spec_resolve b (blocks, sc) = (blocks', sc')"
    by (cases "spec_resolve b (blocks, sc)")
  have "map block_id blocks' = map block_id blocks"
    using spec_resolve_ids[of b blocks sc] r by simp
  then show ?case using Cons.IH[of blocks' sc'] r by simp
qed

lemma checkCollisions_blockIdRef: "blockIdRef (checkCollisions g) = blockIdRef g"
  by (simp add: checkCollisions_def scanBullets_result Let_def scheduleLoop_upd recycleBullets_upd)

lemma checkCollisions_not_playing: "gameState g \<noteq> playing \<Longrightarrow> checkCollisions g = g"
  by (simp add: checkCollisions_def)

lemma blocksOk_cancelAnimationFrame: "blocksOk (cancelAnimationFrame h g) = blocksOk g"
  by (simp add: cancelAnimationFrame_def)

lemma blocksOk_cancelAllFrames: "blocksOk (cancelAllFrames g) = blocksOk g"
  by (simp add: cancelAllFrames_upd)

lemma blocksOk_scheduleLoop: "blocksOk (scheduleLoop l g) = blocksOk g"
  by (simp add: scheduleLoop_upd)

lemma blocksOk_recycleBullets: "blocksOk (recycleBullets r g) = blocksOk g"
  by (simp add: recycleBullets_def Let_def)

lemma blocksOk_activatePowerUp: "blocksOk (activatePowerUp u g) = blocksOk g"
  by (simp add: activatePowerUp_def)

lemma blocksOk_spawnPowerUp: "blocksOk (spawnPowerUp rx rt g) = blocksOk g"
  by (simp add: spawnPowerUp_def Let_def)

lemma blocksOk_spawnOneBlock: "blocksOk g \<Longrightarrow> blocksOk (spawnOneBlock i r g)"
  by (auto simp: blocksOk_def spawnOneBlock_def Let_def list_all_iff split: prod.splits)

lemma blocksOk_createBullet: "blocksOk (snd (createBullet x y a g)) = blocksOk g"
  by (simp add: createBullet_def)

lemma blocksOk_updateRender: "blocksOk g \<Longrightarrow> blocksOk (updateRender g)"
  by (simp add: updateRender_def requestAnimationFrame_def Let_def)

lemma blocksOk_animatePlayer: "blocksOk g \<Longrightarrow> blocksOk (animatePlayer g)"
  by (simp add: animatePlayer_def Let_def blocksOk_scheduleLoop)

lemma blocksOk_animateBullets: "blocksOk g \<Longrightarrow> blocksOk (animateBullets g)"
  by (simp add: animateBullets_def Let_def blocksOk_scheduleLoop blocksOk_recycleBullets split: prod.splits)

lemma blocksOk_animateObjects: "blocksOk g \<Longrightarrow> blocksOk (animateObjects g)"
  proof (cases "gameState g = playing")
  case False
  assume "blocksOk g"
  then show ?thesis using False by (simp add: animateObjects_def)
next
  case True
  assume ok: "blocksOk g"
  let ?v = "if activePowerUps g slowMotion then blockFallSpeed g * 0.5 else blockFallSpeed g"
  let ?xs = "map (\<lambda>block. block\<lparr>block_y := block_y block + ?v\<rparr>) (blocksRef g)"
  let ?P = "\<lambda>block. block_y block < containerHeight g + 50 \<and>
                     (if block_isBreakable block then block_hp block > 0 else True)"
  show ?thesis
  proof (rule blocksOk_filter[OF ok, where xs = ?xs and P = ?P])
    show "blockIdRef (animateObjects g) = blockIdRef g"
      using True by (simp add: animateObjects_def Let_def scheduleLoop_upd)
    show "map block_id ?xs = map block_id (blocksRef g)" by (simp add: comp_def)
    show "blocksRef (animateObjects g) = filter ?P ?xs"
      using True by (simp add: animateObjects_def Let_def scheduleLoop_upd)
  qed
qed

lemma blocksOk_checkCollisions: "blocksOk g \<Longrightarrow> blocksOk (checkCollisions g)"
  proof (cases "gameState g = playing")
  case False
  assume "blocksOk g"
  then show ?thesis using False by (simp add: checkCollisions_not_playing)
next
  case True
  assume ok: "blocksOk g"
  let ?res = "fst (fold spec_resolve (bulletsRef g) (blocksRef g, scoreRef g))"
  have ids: "map block_id ?res = map block_id (blocksRef g)" by (rule fold_resolve_ids)
  note f = checkCollisions_fields_playing[OF True, THEN conjunct2, THEN conjunct2, THEN conjunct2]
  show ?thesis
  proof (cases "filter (\<lambda>b. hitsAny b (blocksRef g)) (bulletsRef g) = []")
    case True
    then have "blocksRef (checkCollisions g) = ?res" using f by simp
    then show ?thesis
      using blocksOk_same_ids[OF ok checkCollisions_blockIdRef] ids by simp
  next
    case False
    then have "blocksRef (checkCollisions g) =
               filter (\<lambda>block. \<not> block_isBreakable block \<or> block_hp block > 0) ?res"
      using f by simp
    then show ?thesis
      by (rule blocksOk_filter[OF ok checkCollisions_blockIdRef ids])
  qed
qed

lemma blocksOk_checkPlayerCollisions: "blocksOk g \<Longrightarrow> blocksOk (checkPlayerCollisions g)"
  by (auto simp: checkPlayerCollisions_def triggerGameOver_def Let_def blocksOk_scheduleLoop blocksOk_cancelAllFrames blocksOk_activatePowerUp intro!: fold_invariant[where P = blocksOk])

lemma blocksOk_callback: "blocksOk g \<Longrightarrow> blocksOk (callback l g)"
  by (cases l) (simp_all add: callback_def blocksOk_updateRender blocksOk_animatePlayer blocksOk_animateBullets blocksOk_animateObjects blocksOk_checkCollisions blocksOk_checkPlayerCollisions)

lemma blocksOk_runFrame: "blocksOk g \<Longrightarrow> blocksOk (runFrame g)"
  by (rule runFrame_invariant[where P = blocksOk]) (simp_all add: blocksOk_callback blocksOk_cancelAnimationFrame)

lemma blocksOk_startGame: "blocksOk (startGame ks d g)"
  by (simp add: startGame_def startAnimationLoops_def blocksOk_scheduleLoop blocksOk_cancelAllFrames) (simp add: blocksOk_def)

lemma blocksOk_gameTimerTick: "blocksOk g \<Longrightarrow> blocksOk (gameTimerTick rx rt g)"
  by (simp add: gameTimerTick_def Let_def blocksOk_spawnPowerUp)

lemma blocksOk_powerUpTimerTick: "blocksOk g \<Longrightarrow> blocksOk (powerUpTimerTick g)"
  by (simp add: powerUpTimerTick_def Let_def)

lemma blocksOk_fireBullet: "blocksOk g \<Longrightarrow> blocksOk (fireBullet now g)"
  by (simp add: fireBullet_def Let_def case_prod_beta blocksOk_createBullet)

lemma blocksOk_spawnBlock: "blocksOk g \<Longrightarrow> blocksOk (spawnBlock rnd g)"
  by (auto simp: spawnBlock_def blocksOk_spawnOneBlock intro!: fold_invariant[where P = blocksOk])

lemma blocksOk_handleTouchMove: "blocksOk g \<Longrightarrow> blocksOk (handleTouchMove nx ny g)"
  by (simp add: handleTouchMove_def)

lemma blocksOk_hitResetTimeout: "blocksOk g \<Longrightarrow> blocksOk (hitResetTimeout g)"
  by (simp add: hitResetTimeout_def blocksOk_def list_all_iff comp_def)

lemma blocksOk_effects: "blocksOk g \<Longrightarrow> blocksOk (effects g)"
  by (simp add: effects_def Let_def blocksOk_cancelAllFrames)

lemma blocksOk_handle: "blocksOk g \<Longrightarrow> blocksOk (handle e g)"
  by (cases e) (simp_all add: handle_def blocksOk_startGame blocksOk_runFrame blocksOk_gameTimerTick blocksOk_powerUpTimerTick blocksOk_fireBullet blocksOk_spawnBlock blocksOk_handleTouchMove blocksOk_hitResetTimeout)

lemma blocksOk_step: "blocksOk g \<Longrightarrow> blocksOk (step e g)"
  by (simp add: step_def blocksOk_effects blocksOk_handle)

lemma blocksOk_reachable: "reachable g \<Longrightarrow> blocksOk g"
proof (induction rule: reachable.induct)
  case (reachable_init cw ch)
  show ?case by (simp add: blocksOk_def initialGame_def)
next
  case (reachable_step g e)
  from reachable_step.IH show ?case by (rule blocksOk_step)
qed

lemma passState_invariants:
  assumes "reachable g" and "gameState g = playing"
  shows "gameState (passState g) = playing" and "poolOk (passState g)"
    and "blocksOk (passState g)"
proof -
  let ?s0 = "g\<lparr>rafCallbacks := []\<rparr>"
  let ?s4 = "animateObjects (animateBullets (animatePlayer (updateRender ?s0)))"
  have "schedOk g" using assms(1) by (rule schedOk_reachable)
  then obtain m k where mk: "0 < m" "m < k"
    and q: "rafCallbacks g = (m, Render) # gameQueue k"
    and n: "rafNextHandle g = k + 5"
    using assms(2) by (auto simp: schedOk_def)
  have e: "passState g = prependCallbacks [(k + 4, PlayerCollisions)] ?s4"
    using assms(2) q mk(2) n by (rule motion_in_frame)
  have "gameState (updateRender ?s0) = playing"
    using assms(2) by (simp add: updateRender_raf)
  then have "gameState (animatePlayer (updateRender ?s0)) = playing"
    by (rule animatePlayer_raf)
  then have "gameState (animateBullets (animatePlayer (updateRender ?s0))) = playing"
    by (rule animateBullets_raf)
  then have "gameState ?s4 = playing" by (rule animateObjects_raf)
  then show "gameState (passState g) = playing" by (simp add: e)
  have "poolOk ?s0" using poolOk_reachable[OF assms(1)] by simp
  then have "poolOk ?s4"
    by (intro poolOk_animateObjects poolOk_animateBullets poolOk_animatePlayer poolOk_updateRender)
  then show "poolOk (passState g)" by (simp add: e prependCallbacks_def)
  have "blocksOk ?s0" using blocksOk_reachable[OF assms(1)] by simp
  then have "blocksOk ?s4"
    by (intro blocksOk_animateObjects blocksOk_animateBullets blocksOk_animatePlayer
        blocksOk_updateRender)
  then show "blocksOk (passState g)" by (simp add: e prependCallbacks_def)
qed

text \<open>
  The collision pass of a frame. In a reachable played state the fifth handle of the
  frame is that of \<^verbatim>\<open>checkCollisions\<close>, the frame calls it on \<open>passState g\<close>, and what is
  left of the frame is the callback of the sixth handle.
\<close>

lemma pass_in_frame:
  assumes "reachable g" and "gameState g = playing"
  shows "map_of (rafCallbacks (fold runHandle (take 4 (frameHandles g)) g)) (frameHandles g ! 4) =
           Some Collisions"
    and "fold runHandle (take 5 (frameHandles g)) g = checkCollisions (passState g)"
    and "runFrame g = runHandle (frameHandles g ! 5) (checkCollisions (passState g))"
proof -
  have "schedOk g" using assms(1) by (rule schedOk_reachable)
  then obtain m k where mk: "0 < m" "m < k"
    and q: "rafCallbacks g = (m, Render) # gameQueue k"
    and n: "rafNextHandle g = k + 5"
    using assms(2) by (auto simp: schedOk_def)
  note f = motion_in_frame[OF assms(2) q mk(2) n]
  show c: "map_of (rafCallbacks (fold runHandle (take 4 (frameHandles g)) g)) (frameHandles g ! 4) =
           Some Collisions"
    by (rule f(3))
  have t5: "take 5 (frameHandles g) = take 4 (frameHandles g) @ [frameHandles g ! 4]"
    by (simp add: f(2))
  have "fold runHandle (take 5 (frameHandles g)) g =
          runHandle (frameHandles g ! 4) (fold runHandle (take 4 (frameHandles g)) g)"
    by (simp add: t5)
  also have "\<dots> = checkCollisions (passState g)"
    by (simp add: runHandle_def c callback_def passState_def)
  finally show s5: "fold runHandle (take 5 (frameHandles g)) g = checkCollisions (passState g)" .
  have t6: "frameHandles g = take 5 (frameHandles g) @ [frameHandles g ! 5]"
    by (simp add: f(2))
  have "runFrame g = fold runHandle (take 5 (frameHandles g) @ [frameHandles g ! 5]) g"
    unfolding runFrame_def frameHandles_def[symmetric] using t6 by simp
  then show "runFrame g = runHandle (frameHandles g ! 5) (checkCollisions (passState g))"
    by (simp add: s5)
qed

lemma exampleBusy_reachable: "reachable exampleBusy"
  unfolding exampleBusy_def by (rule reachable_run) (rule reachable_init)

lemma exampleBusy_fields:
  "gameState exampleBusy = playing"
  "bulletsRef exampleBusy =
     [\<lparr>bullet_id = 3, bullet_x = 196, bullet_y = - 8, bullet_angle = Some 0\<rparr>,
      \<lparr>bullet_id = 2, bullet_x = 196, bullet_y = - 8, bullet_angle = Some 0\<rparr>,
      \<lparr>bullet_id = 1, bullet_x = 20, bullet_y = - 8, bullet_angle = Some 0\<rparr>]"
  "bulletPoolRef exampleBusy =
     [\<lparr>bullet_id = 0, bullet_x = 196, bullet_y = - 28, bullet_angle = Some 0\<rparr>]"
  "blocksRef exampleBusy =
     [\<lparr>block_id = 0, block_x = 180, block_y = - 41, block_hp = 1,
       block_isHit = False, block_isBreakable = True\<rparr>,
      \<lparr>block_id = 1, block_x = 180, block_y = - 50, block_hp = 6,
       block_isHit = False, block_isBreakable = True\<rparr>]"
  "scoreRef exampleBusy = 0"
  "bulletIdRef exampleBusy = 4"
  by (simp_all add: exampleBusy_def run_def eval_defs)

lemma passBusy_fields:
  "gameState (passState exampleBusy) = playing"
  "bulletsRef (passState exampleBusy) =
     [\<lparr>bullet_id = 3, bullet_x = 196, bullet_y = - 18, bullet_angle = Some 0\<rparr>,
      \<lparr>bullet_id = 2, bullet_x = 196, bullet_y = - 18, bullet_angle = Some 0\<rparr>,
      \<lparr>bullet_id = 1, bullet_x = 20, bullet_y = - 18, bullet_angle = Some 0\<rparr>]"
  "bulletPoolRef (passState exampleBusy) =
     [\<lparr>bullet_id = 0, bullet_x = 196, bullet_y = - 28, bullet_angle = Some 0\<rparr>]"
  "blocksRef (passState exampleBusy) =
     [\<lparr>block_id = 0, block_x = 180, block_y = - 38, block_hp = 1,
       block_isHit = False, block_isBreakable = True\<rparr>,
      \<lparr>block_id = 1, block_x = 180, block_y = - 47, block_hp = 6,
       block_isHit = False, block_isBreakable = True\<rparr>]"
  "scoreRef (passState exampleBusy) = 0"
  "map snd (rafCallbacks (passState exampleBusy)) =
     [PlayerCollisions, Render, AnimPlayer, AnimBullets, AnimObjects]"
  by (simp_all add: passState_def frameHandles_def exampleBusy_def run_def eval_defs)

lemma pass_removes_overlapping:
  assumes "poolOk g" and "gameState g = playing"
  shows "bulletsRef (checkCollisions g) =
           filter (\<lambda>b. b \<notin> set (filter (\<lambda>b. hitsAny b (blocksRef g)) (bulletsRef g))) (bulletsRef g)"
proof -
  have d: "distinct (map bullet_id (bulletsRef g))"
    using assms(1) by (simp add: poolOk_def poolOkWith_def)
  show ?thesis
    unfolding checkCollisions_fields_playing[OF assms(2), THEN conjunct1]
    by (rule remove_marked_by_id[OF d]) auto
qed



lemma pass_distinct:
  assumes "poolOk g"
  shows "distinct (map bullet_id (bulletsRef g))"
    and "set (map bullet_id (bulletsRef g)) \<inter> set (map bullet_id (bulletPoolRef g)) = {}"
  using assms by (simp_all add: poolOk_def poolOkWith_def)

text \<open>
  Claim C9. In every reachable state the identifiers of the live bullets are pairwise
  distinct and none of them is the identifier of a pooled bullet. The same holds of the
  state \<open>passState g0\<close> on which a frame of a played game calls \<^verbatim>\<open>checkCollisions\<close>, and
  of the state after the pass; and the pass removes from the live bullets exactly those
  that its scan has put into \<^verbatim>\<open>bulletsToRecycle\<close>, which are live bullets.
\<close>

theorem live_bullet_ids_distinct:
  assumes "reachable g0"
  shows "distinct (map bullet_id (bulletsRef g0)) \<and>
         set (map bullet_id (bulletsRef g0)) \<inter> set (map bullet_id (bulletPoolRef g0)) = {} \<and>
         (gameState g0 = playing \<and> g = passState g0 \<longrightarrow>
            fold runHandle (take 5 (frameHandles g0)) g0 = checkCollisions g \<and>
            distinct (map bullet_id (bulletsRef g)) \<and>
            set (map bullet_id (bulletsRef g)) \<inter> set (map bullet_id (bulletPoolRef g)) = {} \<and>
            (case scanBullets (bulletsRef g) (blocksRef g) (scoreRef g) [] False of
               (blocks', sc, bulletsToRecycle, hitDetected) \<Rightarrow>
                 set bulletsToRecycle \<subseteq> set (bulletsRef g) \<and>
                 bulletsRef (checkCollisions g) =
                   filter (\<lambda>b. b \<notin> set bulletsToRecycle) (bulletsRef g)) \<and>
            distinct (map bullet_id (bulletsRef (checkCollisions g))) \<and>
            set (map bullet_id (bulletsRef (checkCollisions g))) \<inter>
              set (map bullet_id (bulletPoolRef (checkCollisions g))) = {})"
proof (intro conjI impI)
  have ok: "poolOk g0" using assms by (rule poolOk_reachable)
  show "distinct (map bullet_id (bulletsRef g0))" using ok by (rule pass_distinct)
  show "set (map bullet_id (bulletsRef g0)) \<inter> set (map bullet_id (bulletPoolRef g0)) = {}"
    using ok by (rule pass_distinct)
next
  assume a: "gameState g0 = playing \<and> g = passState g0"
  then have p: "gameState g0 = playing" and g: "g = passState g0" by simp_all
  show "fold runHandle (take 5 (frameHandles g0)) g0 = checkCollisions g"
    unfolding g using assms p by (rule pass_in_frame)
next
  assume a: "gameState g0 = playing \<and> g = passState g0"
  then have p: "gameState g0 = playing" and g: "g = passState g0" by simp_all
  have ok: "poolOk g" unfolding g using assms p by (rule passState_invariants)
  show "distinct (map bullet_id (bulletsRef g))" using ok by (rule pass_distinct)
next
  assume a: "gameState g0 = playing \<and> g = passState g0"
  then have p: "gameState g0 = playing" and g: "g = passState g0" by simp_all
  have ok: "poolOk g" unfolding g using assms p by (rule passState_invariants)
  show "set (map bullet_id (bulletsRef g)) \<inter> set (map bullet_id (bulletPoolRef g)) = {}"
    using ok by (rule pass_distinct)
next
  assume a: "gameState g0 = playing \<and> g = passState g0"
  then have p: "gameState g0 = playing" and g: "g = passState g0" by simp_all
  have ok: "poolOk g" unfolding g using assms p by (rule passState_invariants)
  have pl: "gameState g = playing" unfolding g using assms p by (rule passState_invariants)
  have "set (filter (\<lambda>b. hitsAny b (blocksRef g)) (bulletsRef g)) \<subseteq> set (bulletsRef g)"
    by auto
  then show "case scanBullets (bulletsRef g) (blocksRef g) (scoreRef g) [] False of
               (blocks', sc, bulletsToRecycle, hitDetected) \<Rightarrow>
                 set bulletsToRecycle \<subseteq> set (bulletsRef g) \<and>
                 bulletsRef (checkCollisions g) =
                   filter (\<lambda>b. b \<notin> set bulletsToRecycle) (bulletsRef g)"
    unfolding scanBullets_result prod.case
    using pass_removes_overlapping[OF ok pl] by (intro conjI)
next
  assume a: "gameState g0 = playing \<and> g = passState g0"
  then have p: "gameState g0 = playing" and g: "g = passState g0" by simp_all
  have ok: "poolOk g" unfolding g using assms p by (rule passState_invariants)
  have ok': "poolOk (checkCollisions g)" using ok by (rule poolOk_checkCollisions)
  show "distinct (map bullet_id (bulletsRef (checkCollisions g)))"
    using ok' by (rule pass_distinct)
next
  assume a: "gameState g0 = playing \<and> g = passState g0"
  then have p: "gameState g0 = playing" and g: "g = passState g0" by simp_all
  have ok: "poolOk g" unfolding g using assms p by (rule passState_invariants)
  have ok': "poolOk (checkCollisions g)" using ok by (rule poolOk_checkCollisions)
  show "set (map bullet_id (bulletsRef (checkCollisions g))) \<inter>
              set (map bullet_id (bulletPoolRef (checkCollisions g))) = {}"
    using ok' by (rule pass_distinct)
qed

theorem live_bullet_ids_distinct_witness:
  "reachable exampleBusy \<and> gameState exampleBusy = playing \<and>
   map bullet_id (bulletsRef exampleBusy) = [3, 2, 1] \<and>
   map bullet_id (bulletPoolRef exampleBusy) = [0] \<and>
   fold runHandle (take 5 (frameHandles exampleBusy)) exampleBusy =
     checkCollisions (passState exampleBusy) \<and>
   map bullet_id (bulletsRef (passState exampleBusy)) = [3, 2, 1] \<and>
   map bullet_id (bulletPoolRef (passState exampleBusy)) = [0] \<and>
   fst (snd (snd (scanBullets (bulletsRef (passState exampleBusy)) (blocksRef (passState exampleBusy))
                    (scoreRef (passState exampleBusy)) [] False))) =
     [\<lparr>bullet_id = 3, bullet_x = 196, bullet_y = - 18, bullet_angle = Some 0\<rparr>,
      \<lparr>bullet_id = 2, bullet_x = 196, bullet_y = - 18, bullet_angle = Some 0\<rparr>] \<and>
   bulletsRef (checkCollisions (passState exampleBusy)) =
     [\<lparr>bullet_id = 1, bullet_x = 20, bullet_y = - 18, bullet_angle = Some 0\<rparr>] \<and>
   map bullet_id (bulletPoolRef (checkCollisions (passState exampleBusy))) = [0, 3, 2]"
proof -
  have pool: "map bullet_id (bulletPoolRef (checkCollisions (passState exampleBusy))) = [0, 3, 2]"
    using checkCollisions_fields_playing[OF passBusy_fields(1)]
    by (simp add: passBusy_fields spec_defs MAX_BULLETS_def)
  show ?thesis
    using live_bullet_ids_distinct[OF exampleBusy_reachable, of "passState exampleBusy"]
      exampleBusy_reachable pool
    by (simp add: passBusy_fields exampleBusy_fields scanBullets_result spec_defs)
qed





end
